theory Spec2Isabelle
  imports Complex_Main
begin

section \<open>Qt value types used by the highlighter\<close>

text \<open>
  The highlighter of \<^verbatim>\<open>markdownhighlighter.cpp\<close> works on \<^verbatim>\<open>QString\<close> lines. A line is
  modelled as a \<^typ>\<open>string\<close> whose characters are Latin-1 code units; indices and lengths
  are \<^typ>\<open>int\<close>, as the C++ \<^verbatim>\<open>int\<close> of the source (a line is far shorter than
  \<open>2^31\<close>). The functions of this section are the members of \<^verbatim>\<open>QChar\<close> and
  \<^verbatim>\<open>QString\<close> the source calls, restricted to Latin-1.
\<close>

definition isLetter :: "char \<Rightarrow> bool" where
  "isLetter c =
     (let n = (of_char c :: nat)
      in (65 \<le> n \<and> n \<le> 90) \<or> (97 \<le> n \<and> n \<le> 122) \<or> n = 170 \<or> n = 181 \<or> n = 186
         \<or> (192 \<le> n \<and> n \<le> 214) \<or> (216 \<le> n \<and> n \<le> 246) \<or> 248 \<le> n)"

definition isNumber :: "char \<Rightarrow> bool" where
  "isNumber c =
     (let n = (of_char c :: nat)
      in (48 \<le> n \<and> n \<le> 57) \<or> n = 178 \<or> n = 179 \<or> n = 185 \<or> (188 \<le> n \<and> n \<le> 190))"

definition isSpace :: "char \<Rightarrow> bool" where
  "isSpace c =
     (let n = (of_char c :: nat)
      in n = 32 \<or> (9 \<le> n \<and> n \<le> 13) \<or> n = 133 \<or> n = 160)"

definition toLower_char :: "char \<Rightarrow> char" where
  "toLower_char c =
     (let n = (of_char c :: nat)
      in if (65 \<le> n \<and> n \<le> 90) \<or> (192 \<le> n \<and> n \<le> 214) \<or> (216 \<le> n \<and> n \<le> 222)
         then char_of (n + 32) else c)"

definition toLower :: "string \<Rightarrow> string" where
  "toLower s = map toLower_char s"

text \<open>\<^verbatim>\<open>isOctal\<close> and \<^verbatim>\<open>isHex\<close> of \<^verbatim>\<open>markdownhighlighter.h\<close>.\<close>

definition isOctal :: "char \<Rightarrow> bool" where
  "isOctal c = (let n = (of_char c :: nat) in 48 \<le> n \<and> n \<le> 55)"

definition isHex :: "char \<Rightarrow> bool" where
  "isHex c =
     (let n = (of_char c :: nat)
      in (48 \<le> n \<and> n \<le> 57) \<or> (97 \<le> n \<and> n \<le> 102) \<or> (65 \<le> n \<and> n \<le> 70))"

definition len :: "string \<Rightarrow> int" where
  "len s = int (length s)"

text \<open>\<^verbatim>\<open>text.at(i)\<close> where the source has established \<open>0 \<le> i < length\<close>.\<close>

definition charAt :: "string \<Rightarrow> int \<Rightarrow> char" where
  "charAt s i = s ! nat i"

datatype error = IndexOutOfRange

text \<open>
  \<^verbatim>\<open>text.at(i)\<close> and \<^verbatim>\<open>text[i]\<close> on a constant string where nothing bounds \<open>i\<close>: Qt
  asserts \<open>0 \<le> i < size\<close>, so a read outside is a failure of the call.
\<close>

definition at_checked :: "string \<Rightarrow> int \<Rightarrow> error + char" where
  "at_checked s i = (if 0 \<le> i \<and> i < len s then Inr (s ! nat i) else Inl IndexOutOfRange)"

definition trimmed :: "string \<Rightarrow> string" where
  "trimmed s = rev (dropWhile isSpace (rev (dropWhile isSpace s)))"

definition startsWith :: "string \<Rightarrow> string \<Rightarrow> bool" where
  "startsWith s p = (take (length p) s = p)"

definition endsWith :: "string \<Rightarrow> string \<Rightarrow> bool" where
  "endsWith s p = (length p \<le> length s \<and> drop (length s - length p) s = p)"

text \<open>\<^verbatim>\<open>QString::mid(position, n)\<close> and \<^verbatim>\<open>midRef\<close>: a negative or too large \<open>n\<close> means
  "to the end"; a position past the end gives the null string.\<close>

definition mid :: "string \<Rightarrow> int \<Rightarrow> int \<Rightarrow> string" where
  "mid s pos n =
     (if pos > len s then []
      else if pos < 0 then
        (if n < 0 \<or> n + pos \<ge> len s then s
         else if n + pos \<le> 0 then []
         else take (nat (n + pos)) s)
      else if n < 0 \<or> n > len s - pos then drop (nat pos) s
      else take (nat n) (drop (nat pos) s))"

text \<open>\<^verbatim>\<open>indexOf(needle, from)\<close>: the first index \<open>\<ge> from\<close> where the needle starts, or \<open>-1\<close>.
  A negative \<open>from\<close> counts from the end.\<close>

fun indexOf_from :: "string \<Rightarrow> string \<Rightarrow> nat \<Rightarrow> int" where
  "indexOf_from needle [] k = (if needle = [] then int k else -1)"
| "indexOf_from needle (c # cs) k =
     (if take (length needle) (c # cs) = needle then int k
      else indexOf_from needle cs (Suc k))"

definition indexOf :: "string \<Rightarrow> string \<Rightarrow> int \<Rightarrow> int" where
  "indexOf s needle from =
     (let f = (if from < 0 then max (from + len s) 0 else from)
      in if f > len s then -1 else indexOf_from needle (drop (nat f) s) (nat f))"

definition indexOfChar :: "string \<Rightarrow> char \<Rightarrow> int \<Rightarrow> int" where
  "indexOfChar s c from =
     (let f = (if from < 0 then max (from + len s) 0 else from)
      in if f \<ge> len s then -1 else indexOf_from [c] (drop (nat f) s) (nat f))"

definition contains :: "string \<Rightarrow> string \<Rightarrow> bool" where
  "contains s needle = (indexOf s needle 0 \<noteq> -1)"

text \<open>\<^verbatim>\<open>lastIndexOf(c, from)\<close>: the last index \<open>\<le> from\<close> holding \<open>c\<close>, or \<open>-1\<close>.\<close>

fun lastIndexOf_upto :: "string \<Rightarrow> char \<Rightarrow> nat \<Rightarrow> int" where
  "lastIndexOf_upto s c 0 = (if s \<noteq> [] \<and> s ! 0 = c then 0 else -1)"
| "lastIndexOf_upto s c (Suc k) =
     (if Suc k < length s \<and> s ! Suc k = c then int (Suc k) else lastIndexOf_upto s c k)"

definition lastIndexOfChar :: "string \<Rightarrow> char \<Rightarrow> int \<Rightarrow> int" where
  "lastIndexOfChar s c from =
     (let f = (if from < 0 then from + len s else from)
      in if f < 0 \<or> f \<ge> len s then -1 else lastIndexOf_upto s c (nat f))"

section \<open>Highlighter states\<close>

text \<open>
  \<^verbatim>\<open>enum HighlighterState\<close>. Qt keeps a block's state as an \<^verbatim>\<open>int\<close> and the source
  computes with the values (\<^verbatim>\<open>H1 + headingLevel - 1\<close>, \<^verbatim>\<open>currentBlockState() % 2\<close>,
  \<^verbatim>\<open>currentBlockState() + 1\<close>, \<^verbatim>\<open>previousBlockState() >= CodeCpp\<close>), so a state is an
  \<^typ>\<open>int\<close> and the enumerators are names for their values.
\<close>

type_synonym HighlighterState = int

abbreviation (input) NoState :: HighlighterState where "NoState \<equiv> -1"
abbreviation (input) Link :: HighlighterState where "Link \<equiv> 0"
abbreviation (input) Image :: HighlighterState where "Image \<equiv> 3"
abbreviation (input) CodeBlock :: HighlighterState where "CodeBlock \<equiv> 4"
abbreviation (input) CodeBlockComment :: HighlighterState where "CodeBlockComment \<equiv> 5"
abbreviation (input) Italic :: HighlighterState where "Italic \<equiv> 7"
abbreviation (input) Bold :: HighlighterState where "Bold \<equiv> 8"
abbreviation (input) List :: HighlighterState where "List \<equiv> 9"
abbreviation (input) Comment :: HighlighterState where "Comment \<equiv> 11"
abbreviation (input) H1 :: HighlighterState where "H1 \<equiv> 12"
abbreviation (input) H2 :: HighlighterState where "H2 \<equiv> 13"
abbreviation (input) H3 :: HighlighterState where "H3 \<equiv> 14"
abbreviation (input) H4 :: HighlighterState where "H4 \<equiv> 15"
abbreviation (input) H5 :: HighlighterState where "H5 \<equiv> 16"
abbreviation (input) H6 :: HighlighterState where "H6 \<equiv> 17"
abbreviation (input) BlockQuote :: HighlighterState where "BlockQuote \<equiv> 18"
abbreviation (input) HorizontalRuler :: HighlighterState where "HorizontalRuler \<equiv> 21"
abbreviation (input) Table :: HighlighterState where "Table \<equiv> 22"
abbreviation (input) InlineCodeBlock :: HighlighterState where "InlineCodeBlock \<equiv> 23"
abbreviation (input) MaskedSyntax :: HighlighterState where "MaskedSyntax \<equiv> 24"
abbreviation (input) CurrentLineBackgroundColor :: HighlighterState where "CurrentLineBackgroundColor \<equiv> 25"
abbreviation (input) BrokenLink :: HighlighterState where "BrokenLink \<equiv> 26"
abbreviation (input) FrontmatterBlock :: HighlighterState where "FrontmatterBlock \<equiv> 27"
abbreviation (input) TrailingSpace :: HighlighterState where "TrailingSpace \<equiv> 28"
abbreviation (input) CheckBoxUnChecked :: HighlighterState where "CheckBoxUnChecked \<equiv> 29"
abbreviation (input) CheckBoxChecked :: HighlighterState where "CheckBoxChecked \<equiv> 30"
abbreviation (input) CodeKeyWord :: HighlighterState where "CodeKeyWord \<equiv> 1000"
abbreviation (input) CodeString :: HighlighterState where "CodeString \<equiv> 1001"
abbreviation (input) CodeComment :: HighlighterState where "CodeComment \<equiv> 1002"
abbreviation (input) CodeType :: HighlighterState where "CodeType \<equiv> 1003"
abbreviation (input) CodeOther :: HighlighterState where "CodeOther \<equiv> 1004"
abbreviation (input) CodeNumLiteral :: HighlighterState where "CodeNumLiteral \<equiv> 1005"
abbreviation (input) CodeBuiltIn :: HighlighterState where "CodeBuiltIn \<equiv> 1006"
abbreviation (input) CodeBlockEnd :: HighlighterState where "CodeBlockEnd \<equiv> 100"
abbreviation (input) HeadlineEnd :: HighlighterState where "HeadlineEnd \<equiv> 101"
abbreviation (input) FrontmatterBlockEnd :: HighlighterState where "FrontmatterBlockEnd \<equiv> 102"
abbreviation (input) CodeCpp :: HighlighterState where "CodeCpp \<equiv> 200"
abbreviation (input) CodeCppComment :: HighlighterState where "CodeCppComment \<equiv> 201"
abbreviation (input) CodeJs :: HighlighterState where "CodeJs \<equiv> 202"
abbreviation (input) CodeJsComment :: HighlighterState where "CodeJsComment \<equiv> 203"
abbreviation (input) CodeC :: HighlighterState where "CodeC \<equiv> 204"
abbreviation (input) CodeCComment :: HighlighterState where "CodeCComment \<equiv> 205"
abbreviation (input) CodeBash :: HighlighterState where "CodeBash \<equiv> 206"
abbreviation (input) CodePHP :: HighlighterState where "CodePHP \<equiv> 208"
abbreviation (input) CodePHPComment :: HighlighterState where "CodePHPComment \<equiv> 209"
abbreviation (input) CodeQML :: HighlighterState where "CodeQML \<equiv> 210"
abbreviation (input) CodeQMLComment :: HighlighterState where "CodeQMLComment \<equiv> 211"
abbreviation (input) CodePython :: HighlighterState where "CodePython \<equiv> 212"
abbreviation (input) CodeRust :: HighlighterState where "CodeRust \<equiv> 214"
abbreviation (input) CodeRustComment :: HighlighterState where "CodeRustComment \<equiv> 215"
abbreviation (input) CodeJava :: HighlighterState where "CodeJava \<equiv> 216"
abbreviation (input) CodeJavaComment :: HighlighterState where "CodeJavaComment \<equiv> 217"
abbreviation (input) CodeCSharp :: HighlighterState where "CodeCSharp \<equiv> 218"
abbreviation (input) CodeCSharpComment :: HighlighterState where "CodeCSharpComment \<equiv> 219"
abbreviation (input) CodeGo :: HighlighterState where "CodeGo \<equiv> 220"
abbreviation (input) CodeGoComment :: HighlighterState where "CodeGoComment \<equiv> 221"
abbreviation (input) CodeV :: HighlighterState where "CodeV \<equiv> 222"
abbreviation (input) CodeVComment :: HighlighterState where "CodeVComment \<equiv> 223"
abbreviation (input) CodeSQL :: HighlighterState where "CodeSQL \<equiv> 224"
abbreviation (input) CodeJSON :: HighlighterState where "CodeJSON \<equiv> 226"
abbreviation (input) CodeXML :: HighlighterState where "CodeXML \<equiv> 228"
abbreviation (input) CodeCSS :: HighlighterState where "CodeCSS \<equiv> 230"
abbreviation (input) CodeCSSComment :: HighlighterState where "CodeCSSComment \<equiv> 231"
abbreviation (input) CodeTypeScript :: HighlighterState where "CodeTypeScript \<equiv> 232"
abbreviation (input) CodeTypeScriptComment :: HighlighterState where "CodeTypeScriptComment \<equiv> 233"
abbreviation (input) CodeYAML :: HighlighterState where "CodeYAML \<equiv> 234"
abbreviation (input) CodeINI :: HighlighterState where "CodeINI \<equiv> 236"
abbreviation (input) CodeTaggerScript :: HighlighterState where "CodeTaggerScript \<equiv> 238"
abbreviation (input) CodeVex :: HighlighterState where "CodeVex \<equiv> 240"
abbreviation (input) CodeVexComment :: HighlighterState where "CodeVexComment \<equiv> 241"

text \<open>\<^verbatim>\<open>while (i < text.length() && P(text.at(i))) ++i;\<close> and the cursor it ends with.\<close>

function skipWhile :: "(char \<Rightarrow> bool) \<Rightarrow> string \<Rightarrow> int \<Rightarrow> int" where
  "skipWhile P s i = (if 0 \<le> i \<and> i < len s \<and> P (charAt s i) then skipWhile P s (i + 1) else i)"
  by pat_completeness auto
termination
  by (relation "measure (\<lambda>(P, s, i). nat (len s - i))") auto

section \<open>Formats, blocks and the highlighter object\<close>

text \<open>
  A \<^verbatim>\<open>QTextCharFormat\<close> is what \<^verbatim>\<open>setFormat\<close> receives. The record keeps the properties
  the highlighter itself reads or writes; \<open>style\<close> names the entry of the theme table
  \<^verbatim>\<open>_formats\<close> the format was copied from and stands for the properties only the theme
  sets (colours, weight, font family). A default-constructed format has \<open>style = NoState\<close>.
\<close>

datatype UnderlineStyle = NoUnderline | SingleUnderline | DotLine | WaveUnderline

datatype QColor =
    NamedColor string
  | Rgb int int int
  | GlobalColor string
  | Darker QColor int
  | Lighter QColor int

record QTextCharFormat =
  style :: HighlighterState
  fontPointSize :: real
  fontItalic :: bool
  underlineStyle :: UnderlineStyle
  underlineColor :: "QColor option"
  foreground :: "QColor option"
  background :: "QColor option"

definition defaultFormat :: QTextCharFormat where
  "defaultFormat =
     \<lparr>style = NoState, fontPointSize = 0, fontItalic = False, underlineStyle = NoUnderline,
      underlineColor = None, foreground = None, background = None\<rparr>"

text \<open>
  The regular expressions of \<^verbatim>\<open>initHighlightingRules\<close>, named; \<^verbatim>\<open>QRegularExpression\<close>
  matches them. In the order of the source their texts are
  \<^verbatim>\<open>^\[.+?\]: \w+://.+$\<close>,
  \<^verbatim>\<open>^\s*[-*+]\s\<close>,
  \<^verbatim>\<open>^\s*\d+\.\s\<close>,
  \<^verbatim>\<open>^\s*[+|\-|\*] (\[x\])(\s+)\<close>,
  \<^verbatim>\<open>^\s*[+|\-|\*] (\[( |)\])(\s+)\<close>,
  \<^verbatim>\<open>^\s*(>\s*.+)\<close> (with FullyHighlightedBlockQuote) or \<^verbatim>\<open>^\s*(>\s*)+\<close>,
  \<^verbatim>\<open>^([*\-_]\s?){3,}$\<close>,
  \<^verbatim>\<open>(?:^|[^\*\b])(?:\*([^\* ][^\*]*?)\*)(?:[^\*\b]|$)\<close>,
  \<^verbatim>\<open>\b_([^_]+)_\b\<close>,
  \<^verbatim>\<open>\B\*{2}(.+?)\*{2}\B\<close>,
  \<^verbatim>\<open>\b__(.+?)__\b\<close>,
  \<^verbatim>\<open>\~{2}(.+?)\~{2}\<close>,
  \<^verbatim>\<open>\b\w+?:\/\/[^\s>]+\<close>,
  \<^verbatim>\<open><(\w+?:\/\/[^\s]+)>\<close>,
  \<^verbatim>\<open><([^\s`][^`]*?\.[^`]*?[^\s`])>\<close>,
  \<^verbatim>\<open>\[([^\[\]]+)\]\((\S+|.+?)\)\B\<close>,
  \<^verbatim>\<open>\[\]\((.+?)\)\<close>,
  \<^verbatim>\<open><(.+?@.+?)>\<close>,
  \<^verbatim>\<open>\[(.+?)\]\[.+?\]\<close>,
  \<^verbatim>\<open>!\[(.+?)\]\(.+?\)\<close>,
  \<^verbatim>\<open>!\[\]\((.+?)\)\<close>,
  \<^verbatim>\<open>\[!\[(.+?)\]\(.+?\)\]\(.+?\)\<close>,
  \<^verbatim>\<open>\[!\[\]\(.+?\)\]\((.+?)\)\<close>,
  \<^verbatim>\<open>( +)$\<close>,
  \<^verbatim>\<open>`(.+?)`\<close>,
  \<^verbatim>\<open>^((\t)|( {4,})).+$\<close>,
  \<^verbatim>\<open><!\-\-(.+?)\-\->\<close>,
  \<^verbatim>\<open>^\[.+?\]: # \(.+?\)$\<close> and
  \<^verbatim>\<open>^\|.+?\|$\<close>.
\<close>

datatype Pattern =
    ReferenceDefinitionRx | UnorderedListRx | OrderedListRx | CheckedBoxRx | UncheckedBoxRx
  | BlockQuoteFullRx | BlockQuoteMarkerRx | HorizontalRulerRx
  | ItalicStarRx | ItalicUnderscoreRx | BoldStarRx | BoldUnderscoreRx | StrikeThroughRx
  | UrlBareRx | UrlAngleRx | LinkAngleDotRx | LinkTitledRx | LinkEmptyTitleRx | EmailLinkRx
  | ReferenceLinkRx | ImageTextRx | ImageNoTextRx | ImageLinkTextRx | ImageLinkNoTextRx
  | TrailingSpacesRx | InlineCodeRx | IndentedCodeRx | InlineCommentRx | RmarkdownCommentRx
  | TableRowRx

text \<open>
  \<^verbatim>\<open>struct HighlightingRule\<close>. The pattern is one of the regular expressions of
  \<^verbatim>\<open>initHighlightingRules\<close>, by name; \<^verbatim>\<open>shouldContain[3]\<close> is three fields.
\<close>

record HighlightingRule =
  pattern :: Pattern
  state :: HighlighterState
  shouldContain0 :: string
  shouldContain1 :: string
  shouldContain2 :: string
  capturingGroup :: nat
  maskedGroup :: nat
  useStateAsCurrentBlockState :: bool
  disableIfCurrentStateIsSet :: bool

text \<open>
  A \<^verbatim>\<open>QTextBlock\<close> is a line of the document with the integer Qt stores for it.
  \<^verbatim>\<open>QSyntaxHighlighter\<close> keeps the block state in that same integer:
  \<^verbatim>\<open>currentBlockState()\<close> is \<^verbatim>\<open>currentBlock().userState()\<close>, \<^verbatim>\<open>setCurrentBlockState(s)\<close>
  is \<^verbatim>\<open>currentBlock().setUserState(s)\<close> and \<^verbatim>\<open>previousBlockState()\<close> is
  \<^verbatim>\<open>currentBlock().previous().userState()\<close>, each \<open>-1\<close> on an invalid block.
\<close>

record QTextBlock =
  blockText :: string
  userState :: int

text \<open>
  The highlighter object: the members of \<^verbatim>\<open>MarkdownHighlighter\<close>, the document it is
  attached to, the block Qt is reformatting and the \<^verbatim>\<open>setFormat\<close> calls made on that block
  so far (start, count, format), in call order. A block is named by its number.
\<close>

record MarkdownHighlighter =
  document :: "QTextBlock list"
  currentBlock :: nat
  formatChanges :: "(int \<times> int \<times> QTextCharFormat) list"
  highlightingRulesPre :: "HighlightingRule list"
  highlightingRulesAfter :: "HighlightingRule list"
  dirtyTextBlocks :: "nat list"
  formats :: "HighlighterState \<Rightarrow> QTextCharFormat"
  highlightingFinished :: bool
  fullyHighlightedBlockQuote :: bool

definition textOfBlock :: "QTextBlock list \<Rightarrow> int \<Rightarrow> string" where
  "textOfBlock d n = (if 0 \<le> n \<and> n < int (length d) then blockText (d ! nat n) else [])"

definition stateOfBlock :: "QTextBlock list \<Rightarrow> int \<Rightarrow> int" where
  "stateOfBlock d n = (if 0 \<le> n \<and> n < int (length d) then userState (d ! nat n) else -1)"

definition setUserState :: "int \<Rightarrow> int \<Rightarrow> QTextBlock list \<Rightarrow> QTextBlock list" where
  "setUserState n s d =
     (if 0 \<le> n \<and> n < int (length d) then d[nat n := (d ! nat n)\<lparr>userState := s\<rparr>] else d)"

definition currentBlockState :: "MarkdownHighlighter \<Rightarrow> int" where
  "currentBlockState h = stateOfBlock (document h) (int (currentBlock h))"

definition previousBlockState :: "MarkdownHighlighter \<Rightarrow> int" where
  "previousBlockState h = stateOfBlock (document h) (int (currentBlock h) - 1)"

definition setCurrentBlockState :: "int \<Rightarrow> MarkdownHighlighter \<Rightarrow> MarkdownHighlighter" where
  "setCurrentBlockState s h = h\<lparr>document := setUserState (int (currentBlock h)) s (document h)\<rparr>"

definition setFormat :: "int \<Rightarrow> int \<Rightarrow> QTextCharFormat \<Rightarrow> MarkdownHighlighter \<Rightarrow> MarkdownHighlighter" where
  "setFormat start count fmt h = h\<lparr>formatChanges := formatChanges h @ [(start, count, fmt)]\<rparr>"

section \<open>Literal scanners\<close>

text \<open>\<^verbatim>\<open>highlightNumericLiterals\<close>: the two \<^verbatim>\<open>switch\<close> statements and the function.\<close>

definition isPreAllowed :: "char \<Rightarrow> bool" where
  "isPreAllowed c = (c \<in> set ''[({ ,=+-*/%<>'')"

definition isPostAllowedPlain :: "char \<Rightarrow> bool" where
  "isPostAllowedPlain c = (c \<in> set '')]} ,=+-*/%><;'')"

definition isPostSuffix :: "char \<Rightarrow> bool" where
  "isPostSuffix c = (c \<in> set ''ulfULF'')"

definition highlightNumericLiterals ::
  "string \<Rightarrow> int \<Rightarrow> MarkdownHighlighter \<Rightarrow> int \<times> MarkdownHighlighter" where
  "highlightNumericLiterals text i h =
     (if \<not> (i = 0 \<or> isPreAllowed (charAt text (i - 1))) then (i + 1, h)
      else
        let start = i in
        if i + 1 \<ge> len text then (i + 1, setFormat i 1 (formats h CodeNumLiteral) h)
        else
          let i1 = i + 1;
              i2 = (if charAt text i1 = CHR ''x'' \<and> charAt text (i1 - 1) = CHR ''0''
                    then i1 + 1 else i1);
              i3 = skipWhile (\<lambda>c. isNumber c \<or> c = CHR ''.'') text i2;
              i4 = i3 - 1
          in
            if i4 + 1 = len text \<or> isPostAllowedPlain (charAt text (i4 + 1))
            then (i4 + 1, setFormat start (i4 + 1 - start) (formats h CodeNumLiteral) h)
            else if isPostSuffix (charAt text (i4 + 1))
            then (i4 + 2, setFormat start (i4 + 2 - start) (formats h CodeNumLiteral) h)
            else (i4, h))"

text \<open>
  \<^verbatim>\<open>highlightStringLiterals\<close>. \<open>escapeLength\<close> is the \<^verbatim>\<open>switch\<close> that computes
  \<^verbatim>\<open>len\<close> at a backslash at \<open>i\<close> with \<open>i + 1 < length\<close>. The hex case tests
  \<^verbatim>\<open>i + 3 <= text.length()\<close> and then reads \<^verbatim>\<open>text.at(i+3)\<close>.
\<close>

definition escapeLength :: "string \<Rightarrow> int \<Rightarrow> error + int" where
  "escapeLength text i =
     (let c = charAt text (i + 1) in
      if c \<in> set ''abefnrtv?'' \<or> c = CHR 0x27 \<or> c = CHR 0x22 \<or> c = CHR 0x5C then Inr 2
      else if isOctal c then
        (if i + 4 \<le> len text then
           (if \<not> isOctal (charAt text (i + 2)) then Inr 0
            else if \<not> isOctal (charAt text (i + 3)) then Inr 0
            else Inr 4)
         else Inr 0)
      else if c = CHR ''x'' then
        (if i + 3 \<le> len text then
           (if \<not> isHex (charAt text (i + 2)) then Inr 0
            else case at_checked text (i + 3) of
                   Inl e \<Rightarrow> Inl e
                 | Inr d \<Rightarrow> if \<not> isHex d then Inr 0 else Inr 4)
         else Inr 0)
      else Inr 0)"

function highlightStringLiterals_loop ::
  "char \<Rightarrow> string \<Rightarrow> int \<Rightarrow> MarkdownHighlighter \<Rightarrow> error + (int \<times> MarkdownHighlighter)" where
  "highlightStringLiterals_loop strType text i h =
     (if 0 < i \<and> i < len text then
        (if charAt text i = strType \<and> charAt text (i - 1) \<noteq> CHR 0x5C
         then Inr (i + 1, setFormat i 1 (formats h CodeString) h)
         else if charAt text i = CHR 0x5C \<and> i + 1 < len text then
           (case escapeLength text i of
              Inl e \<Rightarrow> Inl e
            | Inr n \<Rightarrow>
                if n = 0
                then highlightStringLiterals_loop strType text (i + 1)
                       (setFormat i 1 (formats h CodeString) h)
                else if n = 2
                then highlightStringLiterals_loop strType text (i + 2)
                       (setFormat i 2 (formats h CodeNumLiteral) h)
                else highlightStringLiterals_loop strType text (i + 4)
                       (setFormat i 4 (formats h CodeNumLiteral) h))
         else highlightStringLiterals_loop strType text (i + 1)
                (setFormat i 1 (formats h CodeString) h))
      else Inr (i, h))"
  by pat_completeness auto
termination
  by (relation "measure (\<lambda>(strType, text, i, h). nat (len text - i))") auto

definition highlightStringLiterals ::
  "char \<Rightarrow> string \<Rightarrow> int \<Rightarrow> MarkdownHighlighter \<Rightarrow> error + (int \<times> MarkdownHighlighter)" where
  "highlightStringLiterals strType text i h =
     highlightStringLiterals_loop strType text (i + 1) (setFormat i 1 (formats h CodeString) h)"

declare skipWhile.simps [simp del]
declare highlightStringLiterals_loop.simps [simp del]

section \<open>What the highlighter takes from outside\<close>

text \<open>
  \<^verbatim>\<open>qownlanguagedata.h\<close> supplies, per language, five \<^verbatim>\<open>QMultiHash<char, QLatin1String>\<close>
  tables keyed by the first character of a word. The file is not among the sources, so the
  tables are a parameter: \<open>values\<close> of a key as a list, in the order \<^verbatim>\<open>QMultiHash::values\<close>
  returns them; \<open>contains\<close> is that list not being empty.
\<close>

record LanguageData =
  data_types :: "char \<Rightarrow> string list"
  data_keywords :: "char \<Rightarrow> string list"
  data_builtin :: "char \<Rightarrow> string list"
  data_literals :: "char \<Rightarrow> string list"
  data_others :: "char \<Rightarrow> string list"

definition emptyData :: LanguageData where
  "emptyData =
     \<lparr>data_types = (\<lambda>c. []), data_keywords = (\<lambda>c. []), data_builtin = (\<lambda>c. []),
      data_literals = (\<lambda>c. []), data_others = (\<lambda>c. [])\<rparr>"

datatype Language =
    Cpp | JS | Shell | PHP | QML | Python | Rust | Java | CSharp | Go | V | SQL | JSON | CSS
  | Typescript | YAML | VEX

text \<open>
  A \<^verbatim>\<open>QRegularExpressionMatch\<close> is the list of its groups, each with
  \<^verbatim>\<open>capturedStart\<close> and \<^verbatim>\<open>capturedLength\<close>; a group the match does not have starts at
  \<open>-1\<close> with length \<open>0\<close>.
\<close>

type_synonym QRegularExpressionMatch = "(int \<times> int) list"

definition capturedStart :: "QRegularExpressionMatch \<Rightarrow> nat \<Rightarrow> int" where
  "capturedStart m g = (if g < length m then fst (m ! g) else -1)"

definition capturedLength :: "QRegularExpressionMatch \<Rightarrow> nat \<Rightarrow> int" where
  "capturedLength m g = (if g < length m then snd (m ! g) else 0)"

text \<open>
  The library behaviour the highlighter relies on: the matches \<^verbatim>\<open>globalMatch\<close> enumerates for
  a pattern on a line, the language tables, and from \<^verbatim>\<open>QColor\<close> and \<^verbatim>\<open>QStringRef\<close>
  whether a colour is valid, its lightness, and \<^verbatim>\<open>toInt\<close>.
\<close>

record Externals =
  globalMatch :: "Pattern \<Rightarrow> string \<Rightarrow> QRegularExpressionMatch list"
  loadData :: "Language \<Rightarrow> LanguageData"
  colorIsValid :: "QColor \<Rightarrow> bool"
  colorLightness :: "QColor \<Rightarrow> int"
  toInt :: "string \<Rightarrow> int"

section \<open>The generic code scanner\<close>

text \<open>One word of the loop in the lambda \<^verbatim>\<open>applyCodeFormat\<close>, then the lambda.\<close>

definition applyWord ::
  "string \<Rightarrow> QTextCharFormat \<Rightarrow> string \<Rightarrow> int \<times> MarkdownHighlighter \<Rightarrow> int \<times> MarkdownHighlighter" where
  "applyWord text fmt word p =
     (case p of (i, h) \<Rightarrow>
        if word = mid text i (len word) then
          (if i + len word = len text \<or> \<not> isLetter (charAt text (i + len word))
           then (i + len word, setFormat i (len word) fmt h)
           else (i, h))
        else (i, h))"

definition applyCodeFormat ::
  "int \<Rightarrow> (char \<Rightarrow> string list) \<Rightarrow> string \<Rightarrow> QTextCharFormat \<Rightarrow> MarkdownHighlighter
     \<Rightarrow> int \<times> MarkdownHighlighter" where
  "applyCodeFormat i data text fmt h =
     (if (i = 0 \<or> \<not> isLetter (charAt text (i - 1))) \<and> data (charAt text i) \<noteq> []
      then fold (applyWord text fmt) (data (charAt text i)) (i, h)
      else (i, h))"

text \<open>The loop over the \<^verbatim>\<open>others\<close> table, which for C and C++ starts one character early.\<close>

definition applyOther ::
  "string \<Rightarrow> string \<Rightarrow> int \<times> MarkdownHighlighter \<Rightarrow> int \<times> MarkdownHighlighter" where
  "applyOther text word p =
     (case p of (i, h) \<Rightarrow>
        if word = mid text i (len word) then
          (if i + len word = len text \<or> \<not> isLetter (charAt text (i + len word))
           then (i + len word,
                 if currentBlockState h = CodeCpp \<or> currentBlockState h = CodeC
                 then setFormat (i - 1) (len word + 1) (formats h CodeOther) h
                 else setFormat i (len word) (formats h CodeOther) h)
           else (i, h))
        else (i, h))"

text \<open>
  The part of the \<^verbatim>\<open>for\<close> body of \<^verbatim>\<open>highlightSyntax\<close> after the inner \<^verbatim>\<open>while\<close>: from
  \<^verbatim>\<open>int pos = i\<close> to the end of the body. Each \<^verbatim>\<open>continue\<close> ends it with the cursor it has.
\<close>

definition matchWords ::
  "LanguageData \<Rightarrow> string \<Rightarrow> int \<Rightarrow> MarkdownHighlighter \<Rightarrow> int \<times> MarkdownHighlighter" where
  "matchWords d text i h =
     (let pos = i in
      if i = len text \<or> \<not> isLetter (charAt text i) then (i, h)
      else case applyCodeFormat i (data_types d) text (formats h CodeType) h of (i1, h1) \<Rightarrow>
      if i1 = len text \<or> \<not> isLetter (charAt text i1) then (i1, h1)
      else case applyCodeFormat i1 (data_keywords d) text (formats h1 CodeKeyWord) h1 of (i2, h2) \<Rightarrow>
      if i2 = len text \<or> \<not> isLetter (charAt text i2) then (i2, h2)
      else case applyCodeFormat i2 (data_literals d) text (formats h2 CodeNumLiteral) h2 of (i3, h3) \<Rightarrow>
      if i3 = len text \<or> \<not> isLetter (charAt text i3) then (i3, h3)
      else case applyCodeFormat i3 (data_builtin d) text (formats h3 CodeBuiltIn) h3 of (i4, h4) \<Rightarrow>
      if i4 = len text \<or> \<not> isLetter (charAt text i4) then (i4, h4)
      else case
          (if (i4 = 0 \<or> \<not> isLetter (charAt text (i4 - 1))) \<and> data_others d (charAt text i4) \<noteq> []
           then fold (applyOther text) (data_others d (charAt text i4)) (i4, h4)
           else (i4, h4)) of (i5, h5) \<Rightarrow>
      if pos = i5 then (skipWhile isLetter text i5, h5) else (i5, h5))"

text \<open>
  The \<^verbatim>\<open>for\<close> loop of \<^verbatim>\<open>highlightSyntax\<close> with its inner \<^verbatim>\<open>while\<close> and the label
  \<^verbatim>\<open>Comment\<close>, which \<^verbatim>\<open>goto\<close> enters from the head of the \<^verbatim>\<open>for\<close> body. The program
  points are the condition of the \<^verbatim>\<open>for\<close>, the condition of the \<^verbatim>\<open>while\<close>, the label, the
  end of the \<^verbatim>\<open>while\<close> body (\<^verbatim>\<open>if (i >= textLen) break; ++i;\<close>) and the code after the
  \<^verbatim>\<open>while\<close>. The search for the end of a comment starts at the beginning of the line, so the
  cursor can move backwards and the loop need not end: every step takes one unit of fuel,
  and \<open>None\<close> is a run that has not ended within the fuel. The result says whether the
  function returned from inside the loop (\<open>True\<close>) or the loop ran out (\<open>False\<close>).
\<close>

datatype ProgramPoint = ForCond | WhileCond | CommentLabel | WhileBodyEnd | AfterWhile

primrec scan ::
  "nat \<Rightarrow> LanguageData \<Rightarrow> char \<Rightarrow> string \<Rightarrow> ProgramPoint \<Rightarrow> int \<Rightarrow> MarkdownHighlighter
     \<Rightarrow> (error + bool \<times> MarkdownHighlighter) option" where
  "scan 0 d comment text pc i h = None"
| "scan (Suc n) d comment text pc i h =
     (case pc of
        ForCond \<Rightarrow>
          if i < len text then
            (if currentBlockState h mod 2 \<noteq> 0 then scan n d comment text CommentLabel i h
             else scan n d comment text WhileCond i h)
          else Some (Inr (False, h))
      | WhileCond \<Rightarrow>
          if i < len text \<and> \<not> isLetter (charAt text i) then
            (if isSpace (charAt text i) then
               (if i + 1 = len text then scan n d comment text AfterWhile (i + 1) h
                else if isLetter (charAt text (i + 1)) then scan n d comment text AfterWhile (i + 1) h
                else scan n d comment text WhileCond (i + 1) h)
             else if comment = CHR 0x00 \<and> charAt text i = CHR ''/'' then
               (if i + 1 < len text then
                  (if charAt text (i + 1) = CHR ''/''
                   then Some (Inr (True, setFormat i (len text) (formats h CodeComment) h))
                   else if charAt text (i + 1) = CHR ''*''
                   then scan n d comment text CommentLabel i h
                   else scan n d comment text WhileBodyEnd i h)
                else scan n d comment text WhileBodyEnd i h)
             else if charAt text i = comment then
               scan n d comment text AfterWhile (len text)
                 (setFormat i (len text) (formats h CodeComment) h)
             else if isNumber (charAt text i) then
               (case highlightNumericLiterals text i h of
                  (i', h') \<Rightarrow> scan n d comment text WhileBodyEnd i' h')
             else if charAt text i = CHR 0x22 then
               (case highlightStringLiterals (CHR 0x22) text i h of
                  Inl e \<Rightarrow> Some (Inl e)
                | Inr (i', h') \<Rightarrow> scan n d comment text WhileBodyEnd i' h')
             else if charAt text i = CHR 0x27 then
               (case highlightStringLiterals (CHR 0x27) text i h of
                  Inl e \<Rightarrow> Some (Inl e)
                | Inr (i', h') \<Rightarrow> scan n d comment text WhileBodyEnd i' h')
             else scan n d comment text WhileBodyEnd i h)
          else scan n d comment text AfterWhile i h
      | CommentLabel \<Rightarrow>
          (let next = indexOf text ''*/'' 0 in
           if next = -1 then
             (let h1 = (if currentBlockState h mod 2 = 0
                        then setCurrentBlockState (currentBlockState h + 1) h else h)
              in Some (Inr (True, setFormat i (len text) (formats h1 CodeComment) h1)))
           else
             (let h1 = (if currentBlockState h mod 2 \<noteq> 0
                        then setCurrentBlockState (currentBlockState h - 1) h else h);
                  h2 = setFormat i (next + 2 - i) (formats h1 CodeComment) h1
              in if next + 2 \<ge> len text then Some (Inr (True, h2))
                 else scan n d comment text WhileBodyEnd (next + 2) h2))
      | WhileBodyEnd \<Rightarrow>
          if i \<ge> len text then scan n d comment text AfterWhile i h
          else scan n d comment text WhileCond (i + 1) h
      | AfterWhile \<Rightarrow>
          (case matchWords d text i h of
             (i', h') \<Rightarrow> scan n d comment text ForCond (i' + 1) h'))"

section \<open>The special scanners\<close>

lemma indexOf_from_ge: "indexOf_from needle s k \<noteq> -1 \<Longrightarrow> int k \<le> indexOf_from needle s k"
proof (induction s arbitrary: k)
  case Nil
  then show ?case by (simp split: if_splits)
next
  case (Cons c cs)
  show ?case
  proof (cases "take (length needle) (c # cs) = needle")
    case True
    then show ?thesis by simp
  next
    case False
    with Cons.prems have "indexOf_from needle cs (Suc k) \<noteq> -1" by simp
    from Cons.IH [OF this] False show ?thesis by simp
  qed
qed

lemma indexOfChar_ge:
  "0 \<le> from \<Longrightarrow> indexOfChar s c from \<noteq> -1 \<Longrightarrow> from \<le> indexOfChar s c from"
  using indexOf_from_ge [of "[c]" "drop (nat from) s" "nat from"]
  by (auto simp: indexOfChar_def Let_def split: if_splits)

lemma indexOfChar_gt:
  "0 \<le> from \<Longrightarrow> from < len s \<Longrightarrow> charAt s from \<noteq> c \<Longrightarrow> indexOfChar s c from \<noteq> -1
     \<Longrightarrow> from < indexOfChar s c from"
proof -
  assume a: "0 \<le> from" "from < len s" "charAt s from \<noteq> c" "indexOfChar s c from \<noteq> -1"
  have d: "drop (nat from) s = (s ! nat from) # drop (Suc (nat from)) s"
    using a by (simp add: len_def Cons_nth_drop_Suc)
  have "indexOfChar s c from = indexOf_from [c] (drop (Suc (nat from)) s) (Suc (nat from))"
    using a d by (simp add: indexOfChar_def charAt_def)
  moreover from this a have "int (Suc (nat from)) \<le> indexOf_from [c] (drop (Suc (nat from)) s) (Suc (nat from))"
    using indexOf_from_ge [of "[c]" "drop (Suc (nat from)) s" "Suc (nat from)"] by simp
  ultimately show ?thesis using a by simp
qed

subsection \<open>YAML\<close>

text \<open>
  \<^verbatim>\<open>ymlHighlighter\<close>. The loop carries \<^verbatim>\<open>colonNotFound\<close>. The test for a path after the
  colon is the source's \<^verbatim>\<open>text.at(colon+1) == '\\' && text.at(colon+1) == '/'\<close>. The first
  read, \<^verbatim>\<open>text.trimmed().at(0)\<close>, is made on the trimmed line, which is empty when the line
  holds white space only.
\<close>

definition linkFormat :: "MarkdownHighlighter \<Rightarrow> QTextCharFormat" where
  "linkFormat h = (formats h CodeString)\<lparr>underlineStyle := SingleUnderline\<rparr>"

datatype 'a LoopStep = Continue int 'a | Return 'a

text \<open>
  One pass through the body of the \<^verbatim>\<open>for\<close> loop at cursor \<open>i\<close>: \<open>Continue j s\<close> when the
  body ends (or executes \<^verbatim>\<open>continue\<close>) with the cursor at \<open>j\<close>, after which the loop does
  \<^verbatim>\<open>++i\<close>; \<open>Return s\<close> when it leaves the loop (\<^verbatim>\<open>break\<close> or \<^verbatim>\<open>return\<close>).
\<close>

definition ymlHighlighter_body ::
  "string \<Rightarrow> int \<Rightarrow> bool \<times> MarkdownHighlighter \<Rightarrow> (bool \<times> MarkdownHighlighter) LoopStep" where
  "ymlHighlighter_body text i s =
     (case s of (colonNotFound, h) \<Rightarrow>
        if \<not> isLetter (charAt text i) then Continue i s
        else if colonNotFound \<and> charAt text i \<noteq> CHR ''h'' then Continue i s
        else if i \<noteq> 0 \<and> charAt text (i - 1) = CHR 0x22 then
          (if indexOfChar text (CHR 0x22) i = -1 then Return s
           else Continue (indexOfChar text (CHR 0x22) i) s)
        else if i \<noteq> 0 \<and> charAt text (i - 1) = CHR 0x27 then
          (if indexOfChar text (CHR 0x27) i = -1 then Return s
           else Continue (indexOfChar text (CHR 0x27) i) s)
        else
          (let colon = indexOfChar text (CHR '':'') i;
               colonNotFound1 = (colonNotFound \<or> colon = -1)
           in if \<not> colonNotFound1 \<and> colon + 1 = len text
              then Return (colonNotFound1, setFormat i (colon - i) (formats h CodeKeyWord) h)
              else
                (let h1 = (if \<not> colonNotFound1
                              \<and> \<not> (charAt text (colon + 1) = CHR 0x5C \<and> charAt text (colon + 1) = CHR ''/'')
                           then setFormat i (colon - i) (formats h CodeKeyWord) h else h)
                 in if charAt text i = CHR ''h''
                       \<and> (mid text i 5 = ''https'' \<or> mid text i 4 = ''http'')
                    then
                      (let space = (if indexOfChar text (CHR '' '') i = -1 then len text
                                    else indexOfChar text (CHR '' '') i)
                       in Continue space (colonNotFound1, setFormat i (space - i) (linkFormat h1) h1))
                    else Continue i (colonNotFound1, h1))))"

lemma ymlHighlighter_body_progress:
  "0 \<le> i \<Longrightarrow> i < len t \<Longrightarrow> ymlHighlighter_body t i s = Continue j s' \<Longrightarrow> i \<le> j"
  using indexOfChar_ge [of i t "CHR 0x22"] indexOfChar_ge [of i t "CHR 0x27"]
    indexOfChar_ge [of i t "CHR '' ''"]
  by (auto simp: ymlHighlighter_body_def Let_def split: prod.splits if_splits)

function ymlHighlighter_loop ::
  "string \<Rightarrow> int \<Rightarrow> bool \<times> MarkdownHighlighter \<Rightarrow> bool \<times> MarkdownHighlighter" where
  "ymlHighlighter_loop text i s =
     (if 0 \<le> i \<and> i < len text then
        (case ymlHighlighter_body text i s of
           Continue j s' \<Rightarrow> ymlHighlighter_loop text (j + 1) s'
         | Return s' \<Rightarrow> s')
      else s)"
  by pat_completeness auto
termination
proof (relation "measure (\<lambda>(t, i, s). nat (len t - i))", goal_cases)
  case 1
  show ?case by simp
next
  case (2 t i s j s')
  then show ?case using ymlHighlighter_body_progress [of i t s j s'] by simp
qed

declare ymlHighlighter_loop.simps [simp del]

definition ymlHighlighter :: "string \<Rightarrow> MarkdownHighlighter \<Rightarrow> error + MarkdownHighlighter" where
  "ymlHighlighter text h =
     (if text = [] then Inr h
      else case at_checked (trimmed text) 0 of
             Inl e \<Rightarrow> Inl e
           | Inr c \<Rightarrow>
               if c = CHR ''#'' then Inr h else Inr (snd (ymlHighlighter_loop text 0 (False, h))))"

subsection \<open>INI\<close>

definition redDotted :: "QTextCharFormat \<Rightarrow> QTextCharFormat" where
  "redDotted f = f\<lparr>underlineStyle := DotLine, underlineColor := Some (GlobalColor ''red'')\<rparr>"

definition iniHighlighter_body :: "string \<Rightarrow> int \<Rightarrow> MarkdownHighlighter \<Rightarrow> MarkdownHighlighter LoopStep" where
  "iniHighlighter_body text i h =
     (if charAt text i = CHR ''['' then
        (let found = indexOfChar text (CHR '']'') i;
             sectionFormat = (if found = -1 then redDotted (formats h CodeType) else formats h CodeType);
             sectionEnd = (if found = -1 then len text else found) + 1;
             h1 = setFormat i (sectionEnd - i) sectionFormat h
         in if sectionEnd \<ge> len text then Return h1 else Continue sectionEnd h1)
      else if charAt text i = CHR '';'' then
        Return (setFormat i (len text) (formats h CodeComment) h)
      else if isLetter (charAt text i) then
        (let found = indexOfChar text (CHR ''='') i;
             format = (if found = -1 then redDotted (formats h CodeKeyWord) else formats h CodeKeyWord);
             equalsPos = (if found = -1 then len text else found);
             h1 = setFormat i (equalsPos - i) format h
         in if equalsPos - 1 \<ge> len text then Return h1 else Continue (equalsPos - 1) h1)
      else if charAt text i = CHR ''='' then
        (let findComment = indexOfChar text (CHR '';'') i
         in if findComment = -1 then Return h else Continue (findComment - 1) h)
      else Continue i h)"

lemma isLetter_not_equals: "isLetter c \<Longrightarrow> c \<noteq> CHR ''=''"
  by (auto simp: isLetter_def)

lemma iniHighlighter_body_progress:
  "0 \<le> i \<Longrightarrow> i < len t \<Longrightarrow> iniHighlighter_body t i h = Continue j h' \<Longrightarrow> i \<le> j"
  using indexOfChar_ge [of i t "CHR '']''"] indexOfChar_gt [of i t "CHR ''=''"]
    indexOfChar_gt [of i t "CHR '';''"] isLetter_not_equals [of "charAt t i"]
  by (auto simp: iniHighlighter_body_def Let_def split: if_splits)

function iniHighlighter_loop :: "string \<Rightarrow> int \<Rightarrow> MarkdownHighlighter \<Rightarrow> MarkdownHighlighter" where
  "iniHighlighter_loop text i h =
     (if 0 \<le> i \<and> i < len text then
        (case iniHighlighter_body text i h of
           Continue j h' \<Rightarrow> iniHighlighter_loop text (j + 1) h'
         | Return h' \<Rightarrow> h')
      else h)"
  by pat_completeness auto
termination
proof (relation "measure (\<lambda>(t, i, h). nat (len t - i))", goal_cases)
  case 1
  show ?case by simp
next
  case (2 t i h j h')
  then show ?case using iniHighlighter_body_progress [of i t h j h'] by simp
qed

declare iniHighlighter_loop.simps [simp del]

definition iniHighlighter :: "string \<Rightarrow> MarkdownHighlighter \<Rightarrow> MarkdownHighlighter" where
  "iniHighlighter text h = (if text = [] then h else iniHighlighter_loop text 0 h)"

subsection \<open>XML\<close>

text \<open>
  \<^verbatim>\<open>xmlHighlighter\<close>. The first test of the body reads \<^verbatim>\<open>text[i+1]\<close> whenever \<^verbatim>\<open>text[i]\<close> is
  \<^verbatim>\<open><\<close>, also at the last character. After a tag is found the cursor stays before the
  \<^verbatim>\<open>>\<close> found, so the later reads of \<^verbatim>\<open>text[i]\<close> are inside the line.
\<close>

function xmlString_loop :: "string \<Rightarrow> int \<Rightarrow> int \<Rightarrow> int \<times> int" where
  "xmlString_loop text i cnt =
     (if 0 \<le> i \<and> i < len text then
        (if charAt text i = CHR 0x22 then (i + 1, cnt + 1)
         else if i + 2 \<ge> len text then (i + 1, cnt + 2)
         else xmlString_loop text (i + 1) (cnt + 1))
      else (i, cnt))"
  by pat_completeness auto
termination
  by (relation "measure (\<lambda>(t, i, cnt). nat (len t - i))") auto

declare xmlString_loop.simps [simp del]

definition xmlTag :: "string \<Rightarrow> int \<Rightarrow> MarkdownHighlighter \<Rightarrow> int \<times> MarkdownHighlighter" where
  "xmlTag text i h =
     (let found = indexOfChar text (CHR ''>'') i in
      if found > 0 then
        (let i1 = (if charAt text (i + 1) = CHR ''/'' then i + 2 else i + 1)
         in (i1, setFormat i1 (found - i1) (formats h CodeKeyWord) h))
      else (i, h))"

definition xmlAttribute :: "string \<Rightarrow> int \<Rightarrow> MarkdownHighlighter \<Rightarrow> MarkdownHighlighter" where
  "xmlAttribute text i h =
     (if charAt text i = CHR ''='' then
        (let lastSpace0 = lastIndexOfChar text (CHR '' '') i;
             lastSpace = (if lastSpace0 = i - 1 then lastIndexOfChar text (CHR '' '') (i - 2)
                          else lastSpace0)
         in if lastSpace > 0 then setFormat lastSpace (i - lastSpace) (formats h CodeBuiltIn) h
            else h)
      else h)"

definition xmlString :: "string \<Rightarrow> int \<Rightarrow> MarkdownHighlighter \<Rightarrow> MarkdownHighlighter LoopStep" where
  "xmlString text i h =
     (if charAt text i = CHR 0x22 then
        (if i + 2 \<ge> len text then Return h
         else case xmlString_loop text (i + 1) 1 of
                (i', cnt) \<Rightarrow> Continue i' (setFormat i cnt (formats h CodeString) h))
      else Continue i h)"

definition xmlHighlighter_body ::
  "string \<Rightarrow> int \<Rightarrow> MarkdownHighlighter \<Rightarrow> error + MarkdownHighlighter LoopStep" where
  "xmlHighlighter_body text i h =
     (if charAt text i = CHR ''<'' then
        (case at_checked text (i + 1) of
           Inl e \<Rightarrow> Inl e
         | Inr c \<Rightarrow>
             (case (if c \<noteq> CHR ''!'' then xmlTag text i h else (i, h)) of
                (i1, h1) \<Rightarrow> Inr (xmlString text i1 (xmlAttribute text i1 h1))))
      else Inr (xmlString text i (xmlAttribute text i h)))"

lemma xmlString_loop_fst: "0 \<le> i \<Longrightarrow> i \<le> fst (xmlString_loop t i cnt)"
proof (induction t i cnt rule: xmlString_loop.induct)
  case (1 t i cnt)
  then show ?case by (subst xmlString_loop.simps) auto
qed

lemma xmlString_loop_ge: "xmlString_loop t i cnt = (j, c) \<Longrightarrow> 0 \<le> i \<Longrightarrow> i \<le> j"
  using xmlString_loop_fst [of i t cnt] by simp

lemma xmlString_progress: "xmlString t i h = Continue j h' \<Longrightarrow> 0 \<le> i \<Longrightarrow> i \<le> j"
  by (auto simp: xmlString_def split: if_splits prod.splits dest!: xmlString_loop_ge)

lemma xmlHighlighter_body_progress:
  "0 \<le> i \<Longrightarrow> i < len t \<Longrightarrow> xmlHighlighter_body t i h = Inr (Continue j h') \<Longrightarrow> i \<le> j"
  by (auto simp: xmlHighlighter_body_def xmlTag_def Let_def
        split: if_splits sum.splits prod.splits dest!: xmlString_progress)

function xmlHighlighter_loop :: "string \<Rightarrow> int \<Rightarrow> MarkdownHighlighter \<Rightarrow> error + MarkdownHighlighter" where
  "xmlHighlighter_loop text i h =
     (if 0 \<le> i \<and> i < len text then
        (case xmlHighlighter_body text i h of
           Inl e \<Rightarrow> Inl e
         | Inr (Continue j h') \<Rightarrow> xmlHighlighter_loop text (j + 1) h'
         | Inr (Return h') \<Rightarrow> Inr h')
      else Inr h)"
  by pat_completeness auto
termination
proof (relation "measure (\<lambda>(t, i, h). nat (len t - i))", goal_cases)
  case 1
  show ?case by simp
next
  case (2 t i h r j h')
  then show ?case using xmlHighlighter_body_progress [of i t h j h'] by simp
qed

declare xmlHighlighter_loop.simps [simp del]

definition xmlHighlighter :: "string \<Rightarrow> MarkdownHighlighter \<Rightarrow> error + MarkdownHighlighter" where
  "xmlHighlighter text h =
     (if text = [] then Inr h
      else xmlHighlighter_loop text 0 (setFormat 0 (len text) (formats h CodeBlock) h))"

subsection \<open>Tagger script\<close>

text \<open>
  \<^verbatim>\<open>taggerScriptHighlighter\<close>: the four tests of the loop body in turn. After an unclosed
  \<^verbatim>\<open>%\<close> the cursor has moved one character on (\<^verbatim>\<open>i++\<close>), and the last test reads
  \<^verbatim>\<open>text.at(i)\<close> there.
\<close>

definition wavyRed :: "QTextCharFormat \<Rightarrow> QTextCharFormat" where
  "wavyRed f = f\<lparr>underlineColor := Some (GlobalColor ''red''), underlineStyle := WaveUnderline\<rparr>"

definition taggerVariable :: "string \<Rightarrow> int \<Rightarrow> MarkdownHighlighter \<Rightarrow> int \<times> MarkdownHighlighter" where
  "taggerVariable text i h =
     (if charAt text i = CHR ''%'' then
        (let next = indexOfChar text (CHR ''%'') (i + 1)
         in if next \<noteq> -1 then (next, setFormat i (next - i + 1) (formats h CodeType) h)
            else (i + 1, setFormat i 1 (wavyRed (formats h NoState)) h))
      else (i, h))"

definition taggerEscape ::
  "string \<Rightarrow> int \<Rightarrow> MarkdownHighlighter \<Rightarrow> error + MarkdownHighlighter LoopStep" where
  "taggerEscape text i h =
     (case at_checked text i of
        Inl e \<Rightarrow> Inl e
      | Inr c \<Rightarrow>
          if c = CHR 0x5C then Inr (Continue (i + 1) (setFormat i 2 (formats h CodeOther) h))
          else Inr (Continue i h))"

definition taggerComment ::
  "string \<Rightarrow> int \<Rightarrow> MarkdownHighlighter \<Rightarrow> error + MarkdownHighlighter LoopStep" where
  "taggerComment text i h =
     (if mid text i 5 = ''$noop'' then
        (let next = indexOfChar text (CHR '')'') i
         in if next = -1 then Inr (Return h)
            else taggerEscape text next (setFormat i (next - i + 1) (formats h CodeComment) h))
      else taggerEscape text i h)"

definition taggerScriptHighlighter_body ::
  "string \<Rightarrow> int \<Rightarrow> MarkdownHighlighter \<Rightarrow> error + MarkdownHighlighter LoopStep" where
  "taggerScriptHighlighter_body text i h =
     (if charAt text i = CHR ''$'' \<and> mid text i 5 \<noteq> ''$noop'' then
        (let next = indexOfChar text (CHR ''('') i
         in if next = -1 then Inr (Return h)
            else case taggerVariable text next (setFormat i (next - i) (formats h CodeKeyWord) h) of
                   (i1, h1) \<Rightarrow> taggerComment text i1 h1)
      else case taggerVariable text i h of (i1, h1) \<Rightarrow> taggerComment text i1 h1)"

lemma taggerEscape_progress: "taggerEscape t i h = Inr (Continue j h') \<Longrightarrow> i \<le> j"
  by (auto simp: taggerEscape_def split: sum.splits if_splits)

lemma taggerComment_progress:
  "taggerComment t i h = Inr (Continue j h') \<Longrightarrow> 0 \<le> i \<Longrightarrow> i \<le> j"
  using indexOfChar_ge [of i t "CHR '')''"]
  by (auto simp: taggerComment_def Let_def split: if_splits dest!: taggerEscape_progress)

lemma taggerVariable_progress: "taggerVariable t i h = (j, h') \<Longrightarrow> 0 \<le> i \<Longrightarrow> i \<le> j"
  using indexOfChar_ge [of "i + 1" t "CHR ''%''"]
  by (auto simp: taggerVariable_def Let_def split: if_splits)

lemma taggerScriptHighlighter_body_progress:
  assumes "0 \<le> i" and "taggerScriptHighlighter_body t i h = Inr (Continue j h')"
  shows "i \<le> j"
proof (cases "charAt t i = CHR ''$'' \<and> mid t i 5 \<noteq> ''$noop''")
  case True
  define n where "n = indexOfChar t (CHR ''('') i"
  from True assms(2) have nn: "n \<noteq> -1"
    by (auto simp: taggerScriptHighlighter_body_def Let_def n_def split: if_splits)
  with assms(1) have ge: "i \<le> n" unfolding n_def by (rule_tac indexOfChar_ge) auto
  obtain i1 h1 where v: "taggerVariable t n (setFormat i (n - i) (formats h CodeKeyWord) h) = (i1, h1)"
    by (cases "taggerVariable t n (setFormat i (n - i) (formats h CodeKeyWord) h)") auto
  from True assms(2) nn v have c: "taggerComment t i1 h1 = Inr (Continue j h')"
    by (simp add: taggerScriptHighlighter_body_def Let_def n_def)
  from taggerVariable_progress [OF v] ge assms(1) have "n \<le> i1" by simp
  moreover from taggerComment_progress [OF c] this ge assms(1) have "i1 \<le> j" by simp
  ultimately show ?thesis using ge by simp
next
  case False
  obtain i1 h1 where v: "taggerVariable t i h = (i1, h1)"
    by (cases "taggerVariable t i h") auto
  from False assms(2) v have c: "taggerComment t i1 h1 = Inr (Continue j h')"
    by (auto simp: taggerScriptHighlighter_body_def)
  from taggerVariable_progress [OF v assms(1)] have "i \<le> i1" .
  moreover from taggerComment_progress [OF c] this assms(1) have "i1 \<le> j" by simp
  ultimately show ?thesis by simp
qed

function taggerScriptHighlighter_loop ::
  "string \<Rightarrow> int \<Rightarrow> MarkdownHighlighter \<Rightarrow> error + MarkdownHighlighter" where
  "taggerScriptHighlighter_loop text i h =
     (if 0 \<le> i \<and> i < len text then
        (case taggerScriptHighlighter_body text i h of
           Inl e \<Rightarrow> Inl e
         | Inr (Continue j h') \<Rightarrow> taggerScriptHighlighter_loop text (j + 1) h'
         | Inr (Return h') \<Rightarrow> Inr h')
      else Inr h)"
  by pat_completeness auto
termination
proof (relation "measure (\<lambda>(t, i, h). nat (len t - i))", goal_cases)
  case 1
  show ?case by simp
next
  case (2 t i h r j h')
  then show ?case using taggerScriptHighlighter_body_progress [of i t h j h'] by simp
qed

declare taggerScriptHighlighter_loop.simps [simp del]

definition taggerScriptHighlighter :: "string \<Rightarrow> MarkdownHighlighter \<Rightarrow> error + MarkdownHighlighter" where
  "taggerScriptHighlighter text h =
     (if text = [] then Inr h else taggerScriptHighlighter_loop text 0 h)"

subsection \<open>CSS\<close>

text \<open>
  \<^verbatim>\<open>cssHighlighter\<close>. The colour of a \<^verbatim>\<open>color:\<close> property and the foreground chosen from its
  lightness. The searches for \<^verbatim>\<open>{\<close> and \<^verbatim>\<open>;\<close> start at the beginning of the line, so the
  cursor can move backwards; the loop takes fuel as the generic scanner does.
\<close>

definition cssColor :: "Externals \<Rightarrow> string \<Rightarrow> int \<Rightarrow> string \<Rightarrow> MarkdownHighlighter \<Rightarrow> QColor" where
  "cssColor env text i color h =
     (if startsWith color ''rgb'' then
        (let t = indexOfChar text (CHR ''('') i;
             rPos = indexOfChar text (CHR '','') t;
             gPos = indexOfChar text (CHR '','') (rPos + 1);
             bPos = indexOfChar text (CHR '')'') gPos
         in if rPos > -1 \<and> gPos > -1 \<and> bPos > -1
            then Rgb (toInt env (mid text (t + 1) (rPos - (t + 1))))
                     (toInt env (mid text (rPos + 1) (gPos - (rPos + 1))))
                     (toInt env (mid text (gPos + 1) (bPos - (gPos + 1))))
            else (case background (formats h NoState) of
                    None \<Rightarrow> GlobalColor ''black''
                  | Some b \<Rightarrow> b))
      else NamedColor color)"

definition cssForeground :: "Externals \<Rightarrow> QColor \<Rightarrow> QColor" where
  "cssForeground env c =
     (let l = colorLightness env c in
      if l \<le> 20 then GlobalColor ''white''
      else if l > 20 \<and> l \<le> 51 then NamedColor ''#ccc''
      else if l > 51 \<and> l \<le> 78 then NamedColor ''#bbb''
      else if l > 78 \<and> l \<le> 110 then NamedColor ''#bbb''
      else if l > 127 then Darker c (l + 100)
      else Lighter c (l + 100))"

definition cssHighlighter_body ::
  "Externals \<Rightarrow> string \<Rightarrow> int \<Rightarrow> MarkdownHighlighter \<Rightarrow> MarkdownHighlighter LoopStep" where
  "cssHighlighter_body env text i h =
     (if charAt text i = CHR ''.'' \<or> charAt text i = CHR ''#'' then
        (if i + 1 \<ge> len text then Return h
         else if isSpace (charAt text (i + 1)) \<or> isNumber (charAt text (i + 1)) then Continue i h
         else
           (let space0 = indexOfChar text (CHR '' '') i;
                space = (if space0 < 0
                         then (if indexOfChar text (CHR ''{'') 0 < 0 then len text
                               else indexOfChar text (CHR ''{'') 0)
                         else space0)
            in Continue space (setFormat i (space - i) (formats h CodeKeyWord) h)))
      else if charAt text i = CHR ''c'' then
        (if mid text i 5 = ''color'' then
           (let colon = indexOfChar text (CHR '':'') (i + 5) in
            if colon < 0 then Continue (i + 5) h
            else
              (let i1 = skipWhile isSpace text (colon + 1);
                   semicolon = (if indexOfChar text (CHR '';'') 0 < 0 then len text
                                else indexOfChar text (CHR '';'') 0);
                   color = mid text i1 (semicolon - i1);
                   c = cssColor env text i1 color h
               in if \<not> colorIsValid env c then Continue i1 h
                  else
                    (let f = (formats h CodeBlock)
                               \<lparr>background := Some c, foreground := Some (cssForeground env c)\<rparr>
                     in Continue semicolon
                          (setFormat i1 (semicolon - i1) f
                             (setFormat i1 (semicolon - i1) defaultFormat h)))))
         else Continue i h)
      else Continue i h)"

primrec cssHighlighter_loop ::
  "nat \<Rightarrow> Externals \<Rightarrow> string \<Rightarrow> int \<Rightarrow> MarkdownHighlighter \<Rightarrow> MarkdownHighlighter option" where
  "cssHighlighter_loop 0 env text i h = None"
| "cssHighlighter_loop (Suc n) env text i h =
     (if i < len text then
        (case cssHighlighter_body env text i h of
           Continue j h' \<Rightarrow> cssHighlighter_loop n env text (j + 1) h'
         | Return h' \<Rightarrow> Some h')
      else Some h)"

definition cssHighlighter ::
  "nat \<Rightarrow> Externals \<Rightarrow> string \<Rightarrow> MarkdownHighlighter \<Rightarrow> MarkdownHighlighter option" where
  "cssHighlighter fuel env text h = (if text = [] then Some h else cssHighlighter_loop fuel env text 0 h)"

section \<open>highlightSyntax\<close>

text \<open>
  The \<^verbatim>\<open>switch\<close> on the state of the current block: the language tables it loads, the
  character that starts a line comment (\<open>CHR 0x00\<close> is the null \<^verbatim>\<open>QChar\<close>), the flags
  \<^verbatim>\<open>isCSS\<close> and \<^verbatim>\<open>isYAML\<close>, or the special scanner it calls before returning.
\<close>

datatype SyntaxKind =
    GenericSyntax LanguageData char bool bool
  | XmlSyntax | IniSyntax | TaggerSyntax

definition syntaxKind :: "Externals \<Rightarrow> int \<Rightarrow> SyntaxKind" where
  "syntaxKind env s =
     (if s = CodeCpp \<or> s = CodeCppComment then GenericSyntax (loadData env Cpp) (CHR 0x00) False False
      else if s = CodeJs \<or> s = CodeJsComment then GenericSyntax (loadData env JS) (CHR 0x00) False False
      else if s = CodeC \<or> s = CodeCComment then GenericSyntax (loadData env Cpp) (CHR 0x00) False False
      else if s = CodeBash then GenericSyntax (loadData env Shell) (CHR ''#'') False False
      else if s = CodePHP \<or> s = CodePHPComment then GenericSyntax (loadData env PHP) (CHR 0x00) False False
      else if s = CodeQML \<or> s = CodeQMLComment then GenericSyntax (loadData env QML) (CHR 0x00) False False
      else if s = CodePython then GenericSyntax (loadData env Python) (CHR ''#'') False False
      else if s = CodeRust \<or> s = CodeRustComment then GenericSyntax (loadData env Rust) (CHR 0x00) False False
      else if s = CodeJava \<or> s = CodeJavaComment then GenericSyntax (loadData env Java) (CHR 0x00) False False
      else if s = CodeCSharp \<or> s = CodeCSharpComment then GenericSyntax (loadData env CSharp) (CHR 0x00) False False
      else if s = CodeGo \<or> s = CodeGoComment then GenericSyntax (loadData env Go) (CHR 0x00) False False
      else if s = CodeV \<or> s = CodeVComment then GenericSyntax (loadData env V) (CHR 0x00) False False
      else if s = CodeSQL then GenericSyntax (loadData env SQL) (CHR 0x00) False False
      else if s = CodeJSON then GenericSyntax (loadData env JSON) (CHR 0x00) False False
      else if s = CodeXML then XmlSyntax
      else if s = CodeCSS \<or> s = CodeCSSComment then GenericSyntax (loadData env CSS) (CHR 0x00) True False
      else if s = CodeTypeScript \<or> s = CodeTypeScriptComment
        then GenericSyntax (loadData env Typescript) (CHR 0x00) False False
      else if s = CodeYAML then GenericSyntax (loadData env YAML) (CHR ''#'') False True
      else if s = CodeINI then IniSyntax
      else if s = CodeTaggerScript then TaggerSyntax
      else if s = CodeVex then GenericSyntax (loadData env VEX) (CHR 0x00) False False
      else GenericSyntax emptyData (CHR 0x00) False False)"

definition postProcess ::
  "nat \<Rightarrow> Externals \<Rightarrow> bool \<Rightarrow> bool \<Rightarrow> string \<Rightarrow> MarkdownHighlighter
     \<Rightarrow> (error + MarkdownHighlighter) option" where
  "postProcess fuel env isCSS isYAML text h =
     (case (if isCSS then cssHighlighter fuel env text h else Some h) of
        None \<Rightarrow> None
      | Some h1 \<Rightarrow> if isYAML then Some (ymlHighlighter text h1) else Some (Inr h1))"

definition highlightSyntax ::
  "nat \<Rightarrow> Externals \<Rightarrow> string \<Rightarrow> MarkdownHighlighter \<Rightarrow> (error + MarkdownHighlighter) option" where
  "highlightSyntax fuel env text h =
     (if text = [] then Some (Inr h)
      else case syntaxKind env (currentBlockState h) of
             XmlSyntax \<Rightarrow> Some (xmlHighlighter text h)
           | IniSyntax \<Rightarrow> Some (Inr (iniHighlighter text h))
           | TaggerSyntax \<Rightarrow> Some (taggerScriptHighlighter text h)
           | GenericSyntax d comment isCSS isYAML \<Rightarrow>
               (case scan fuel d comment text ForCond 0
                       (setFormat 0 (len text) (formats h CodeBlock) h) of
                  None \<Rightarrow> None
                | Some (Inl e) \<Rightarrow> Some (Inl e)
                | Some (Inr (returned, h1)) \<Rightarrow>
                    if returned then Some (Inr h1) else postProcess fuel env isCSS isYAML text h1))"

section \<open>The dirty queue\<close>

text \<open>\<^verbatim>\<open>addDirtyBlock\<close> and \<^verbatim>\<open>clearDirtyBlocks\<close>.\<close>

definition addDirtyBlock :: "nat \<Rightarrow> MarkdownHighlighter \<Rightarrow> MarkdownHighlighter" where
  "addDirtyBlock block h =
     (if block \<notin> set (dirtyTextBlocks h)
      then h\<lparr>dirtyTextBlocks := dirtyTextBlocks h @ [block]\<rparr> else h)"




section \<open>The Markdown rules\<close>

text \<open>\<^verbatim>\<open>initHighlightingRules\<close>: the two rule vectors in the order they are appended.\<close>

definition mkRule ::
  "HighlighterState \<Rightarrow> Pattern \<Rightarrow> string \<Rightarrow> string \<Rightarrow> string \<Rightarrow> nat \<Rightarrow> bool \<Rightarrow> bool \<Rightarrow> HighlightingRule" where
  "mkRule st p c0 c1 c2 g u d =
     \<lparr>pattern = p, state = st, shouldContain0 = c0, shouldContain1 = c1, shouldContain2 = c2,
      capturingGroup = g, maskedGroup = 0, useStateAsCurrentBlockState = u,
      disableIfCurrentStateIsSet = d\<rparr>"

definition initHighlightingRulesPre :: "bool \<Rightarrow> HighlightingRule list" where
  "initHighlightingRulesPre fullQuote =
     [mkRule MaskedSyntax ReferenceDefinitionRx ''://'' [] [] 0 False False,
      mkRule List UnorderedListRx ''- '' ''* '' ''+ '' 0 True False,
      mkRule List OrderedListRx ''- '' ''* '' ''+ '' 0 True False,
      mkRule CheckBoxChecked CheckedBoxRx ''- [x]'' ''* [x]'' ''+ [x]'' 1 False False,
      mkRule CheckBoxUnChecked UncheckedBoxRx ''- ['' ''* ['' ''+ ['' 1 False False,
      mkRule BlockQuote (if fullQuote then BlockQuoteFullRx else BlockQuoteMarkerRx)
        ''> '' [] [] 0 False False,
      mkRule HorizontalRuler HorizontalRulerRx ''---'' ''***'' ''+++'' 0 False False]"

definition initHighlightingRulesAfter :: "HighlightingRule list" where
  "initHighlightingRulesAfter =
     [mkRule Italic ItalicStarRx ''*'' [] [] 1 False False,
      mkRule Italic ItalicUnderscoreRx ''*'' [] [] 1 False False,
      mkRule Bold BoldStarRx ''**'' [] [] 1 False False,
      mkRule Bold BoldUnderscoreRx ''__'' [] [] 1 False False,
      mkRule MaskedSyntax StrikeThroughRx ''~'' [] [] 1 False False,
      mkRule Link UrlBareRx ''://'' [] [] 0 False False,
      mkRule Link UrlAngleRx ''://'' [] [] 1 False False,
      mkRule Link LinkAngleDotRx ''<'' [] [] 1 False False,
      mkRule Link LinkTitledRx '']('' [] [] 1 False False,
      mkRule Link LinkEmptyTitleRx ''[]('' [] [] 1 False False,
      mkRule Link EmailLinkRx ''@'' [] [] 1 False False,
      mkRule Link ReferenceLinkRx ''['' [] [] 1 False False,
      mkRule Image ImageTextRx ''!['' [] [] 1 False False,
      mkRule Image ImageNoTextRx ''![]'' [] [] 1 False False,
      mkRule Link ImageLinkTextRx ''[!['' [] [] 1 False False,
      mkRule Link ImageLinkNoTextRx ''[![]('' [] [] 1 False False,
      mkRule TrailingSpace TrailingSpacesRx [CHR '' '', CHR 0x0A] [] [] 1 False False,
      mkRule InlineCodeBlock InlineCodeRx [CHR 0x60] [] [] 1 False False,
      mkRule CodeBlock IndentedCodeRx [CHR 0x09] [] [] 0 False True,
      mkRule Comment InlineCommentRx ''<!--'' [] [] 1 False False,
      mkRule Comment RmarkdownCommentRx '']: # ('' [] [] 1 False False,
      mkRule Table TableRowRx ''|'' [] [] 0 False False]"

text \<open>
  \<^verbatim>\<open>highlightAdditionalRules\<close>. The fast reject on \<^verbatim>\<open>shouldContain\<close>, the treatment of one
  match, of one rule, and the loop over the rules; \<^verbatim>\<open>setHeadingStyles\<close> is the branch taken
  inside a heading.
\<close>

definition passesShouldContain :: "HighlightingRule \<Rightarrow> string \<Rightarrow> bool" where
  "passesShouldContain rule text =
     (contains text (shouldContain0 rule)
      \<or> (shouldContain1 rule \<noteq> [] \<and> contains text (shouldContain1 rule))
      \<or> (shouldContain2 rule \<noteq> [] \<and> contains text (shouldContain2 rule)))"

definition inHeading :: "MarkdownHighlighter \<Rightarrow> bool" where
  "inHeading h = (currentBlockState h \<ge> H1 \<and> currentBlockState h \<le> H6)"

definition setHeadingStyles ::
  "HighlighterState \<Rightarrow> QRegularExpressionMatch \<Rightarrow> nat \<Rightarrow> MarkdownHighlighter \<Rightarrow> MarkdownHighlighter" where
  "setHeadingStyles rule m capturedGroup h =
     (let f = formats h (currentBlockState h) in
      if rule = Italic then
        setFormat (capturedStart m capturedGroup) (capturedLength m capturedGroup)
          (f\<lparr>fontItalic := True\<rparr>) h
      else if rule = Bold then
        setFormat (capturedStart m capturedGroup) (capturedLength m capturedGroup) f h
      else if rule = Link then
        (if capturedGroup = 1
         then setFormat (capturedStart m capturedGroup) (capturedLength m capturedGroup)
                ((formats h Link)\<lparr>fontPointSize := fontPointSize f\<rparr>) h
         else h)
      else h)"

definition applyMatch ::
  "HighlightingRule \<Rightarrow> QRegularExpressionMatch \<Rightarrow> MarkdownHighlighter \<Rightarrow> MarkdownHighlighter" where
  "applyMatch rule m h =
     (let format = formats h (state rule);
          currentMaskedFormat =
            (if fontPointSize format > 0
             then (formats h MaskedSyntax)\<lparr>fontPointSize := fontPointSize format\<rparr>
             else formats h MaskedSyntax);
          h1 = (if capturingGroup rule > 0 \<and> \<not> (inHeading h \<and> state rule \<noteq> InlineCodeBlock)
                then setFormat (capturedStart m (maskedGroup rule))
                       (capturedLength m (maskedGroup rule)) currentMaskedFormat h
                else h)
      in if inHeading h1 \<and> state rule \<noteq> InlineCodeBlock
         then setHeadingStyles (state rule) m (capturingGroup rule) h1
         else setFormat (capturedStart m (capturingGroup rule))
                (capturedLength m (capturingGroup rule)) format h1)"

definition applyRule ::
  "Externals \<Rightarrow> string \<Rightarrow> HighlightingRule \<Rightarrow> MarkdownHighlighter \<Rightarrow> MarkdownHighlighter" where
  "applyRule env text rule h =
     (if disableIfCurrentStateIsSet rule \<and> currentBlockState h \<noteq> NoState then h
      else if \<not> passesShouldContain rule text then h
      else
        (let matches = globalMatch env (pattern rule) text;
             h1 = (if matches \<noteq> [] \<and> useStateAsCurrentBlockState rule
                   then setCurrentBlockState (state rule) h else h)
         in fold (applyMatch rule) matches h1))"

definition highlightAdditionalRules ::
  "Externals \<Rightarrow> HighlightingRule list \<Rightarrow> string \<Rightarrow> MarkdownHighlighter \<Rightarrow> MarkdownHighlighter" where
  "highlightAdditionalRules env rules text h = fold (applyRule env text) rules h"

section \<open>Headlines\<close>

definition hasOnlyHeadChars :: "string \<Rightarrow> char \<Rightarrow> bool" where
  "hasOnlyHeadChars txt c = (txt \<noteq> [] \<and> list_all (\<lambda>x. x = c) txt)"

text \<open>\<^verbatim>\<open>while(i < text.length() && text.at(i) == QChar('#') && i < 6) ++i;\<close>\<close>

function hashRun :: "string \<Rightarrow> int \<Rightarrow> int" where
  "hashRun s i =
     (if 0 \<le> i \<and> i < len s \<and> charAt s i = CHR ''#'' \<and> i < 6 then hashRun s (i + 1) else i)"
  by pat_completeness auto
termination
  by (relation "measure (\<lambda>(s, i). nat (len s - i))") auto

declare hashRun.simps [simp del]

definition previousBlock :: "MarkdownHighlighter \<Rightarrow> int" where
  "previousBlock h = int (currentBlock h) - 1"

definition nextBlock :: "MarkdownHighlighter \<Rightarrow> int" where
  "nextBlock h = int (currentBlock h) + 1"

text \<open>
  \<^verbatim>\<open>highlightSubHeadline\<close>. The statement \<^verbatim>\<open>previousBlock.setUserState(state)\<close> stands
  before the test \<^verbatim>\<open>previousBlockState() != state\<close> that guards \<^verbatim>\<open>addDirtyBlock\<close>.
\<close>

definition highlightSubHeadline ::
  "string \<Rightarrow> HighlighterState \<Rightarrow> MarkdownHighlighter \<Rightarrow> MarkdownHighlighter" where
  "highlightSubHeadline text st h =
     (let prevTextLen = len (textOfBlock (document h) (previousBlock h)) in
      if (previousBlockState h = st \<or> previousBlockState h = NoState) \<and> prevTextLen > 0 then
        (let currentMaskedFormat =
               (formats h MaskedSyntax)\<lparr>fontPointSize := fontPointSize (formats h st)\<rparr>;
             h1 = setFormat 0 (len text) currentMaskedFormat h;
             h2 = setCurrentBlockState HeadlineEnd h1;
             h3 = h2\<lparr>document := setUserState (previousBlock h2) st (document h2)\<rparr>
         in if previousBlockState h3 \<noteq> st then addDirtyBlock (nat (previousBlock h3)) h3 else h3)
      else h)"

text \<open>
  \<^verbatim>\<open>highlightHeadline\<close>, called on a line that is not empty. A line that is the single
  character \<^verbatim>\<open>#\<close> returns at once. \<^verbatim>\<open>setCurrentBlockMargin\<close> returns at its first
  statement and is left out.
\<close>

definition headingLevel :: "string \<Rightarrow> int" where
  "headingLevel text =
     (if charAt text 0 = CHR ''#'' then
        (let i = hashRun text 1 in if i < len text \<and> charAt text i = CHR '' '' then i else 0)
      else 0)"

definition highlightHeadline :: "string \<Rightarrow> MarkdownHighlighter \<Rightarrow> MarkdownHighlighter" where
  "highlightHeadline text h =
     (if charAt text 0 = CHR ''#'' \<and> 1 \<ge> len text then h
      else if headingLevel text > 0 then
        (let st = H1 + headingLevel text - 1
         in setCurrentBlockState st (setFormat 0 (len text) (formats h st) h))
      else if hasOnlyHeadChars text (CHR ''='') then highlightSubHeadline text H1 h
      else if hasOnlyHeadChars text (CHR ''-'') then highlightSubHeadline text H2 h
      else
        (let nextBlockText = textOfBlock (document h) (nextBlock h);
             h1 = (if hasOnlyHeadChars nextBlockText (CHR ''='')
                   then setCurrentBlockState H1
                          (setCurrentBlockState H1 (setFormat 0 (len text) (formats h H1) h))
                   else h)
         in if hasOnlyHeadChars nextBlockText (CHR ''-'')
            then setCurrentBlockState H2
                   (setCurrentBlockState H2 (setFormat 0 (len text) (formats h1 H2) h1))
            else h1))"

section \<open>Blocks that span lines\<close>

text \<open>\<^verbatim>\<open>initCodeLangs\<close>: the table \<^verbatim>\<open>_langStringToEnum\<close>, and \<^verbatim>\<open>QHash::value\<close>, which
  gives the default-constructed state \<open>0\<close> for a key the table does not hold.\<close>

definition langStringToEnum :: "(string \<times> HighlighterState) list" where
  "langStringToEnum =
     [(''bash'', CodeBash), (''c'', CodeC), (''cpp'', CodeCpp), (''cxx'', CodeCpp),
      (''c++'', CodeCpp), (''c#'', CodeCSharp), (''csharp'', CodeCSharp), (''css'', CodeCSS),
      (''go'', CodeCSharp), (''html'', CodeXML), (''ini'', CodeINI), (''java'', CodeJava),
      (''javascript'', CodeJava), (''js'', CodeJs), (''json'', CodeJSON), (''php'', CodePHP),
      (''py'', CodePython), (''python'', CodePython), (''qml'', CodeQML), (''rust'', CodeRust),
      (''sh'', CodeBash), (''sql'', CodeSQL), (''taggerscript'', CodeTaggerScript),
      (''ts'', CodeTypeScript), (''typescript'', CodeTypeScript), (''v'', CodeV),
      (''vex'', CodeVex), (''xml'', CodeXML), (''yml'', CodeYAML), (''yaml'', CodeYAML)]"

definition langValue :: "string \<Rightarrow> HighlighterState" where
  "langValue lang = (case map_of langStringToEnum lang of None \<Rightarrow> 0 | Some s \<Rightarrow> s)"

text \<open>\<^verbatim>\<open>highlightCodeBlock\<close>. The masked format is a reference into \<^verbatim>\<open>_formats\<close>, so
  setting its point size changes the table.\<close>

definition isCodeBlockState :: "int \<Rightarrow> bool" where
  "isCodeBlockState s = (s = CodeBlock \<or> s = CodeBlockComment \<or> s \<ge> CodeCpp)"

definition highlightCodeBlock ::
  "nat \<Rightarrow> Externals \<Rightarrow> string \<Rightarrow> MarkdownHighlighter \<Rightarrow> (error + MarkdownHighlighter) option" where
  "highlightCodeBlock fuel env text h =
     (if startsWith text [CHR 0x60, CHR 0x60, CHR 0x60] then
        (let h1 =
               (if previousBlockState h \<noteq> CodeBlock \<and> previousBlockState h \<noteq> CodeBlockComment
                   \<and> previousBlockState h < CodeCpp then
                  (let lang = toLower (mid text 3 (len text));
                       progLang = langValue lang
                   in if progLang \<ge> CodeCpp then setCurrentBlockState progLang h
                      else setCurrentBlockState CodeBlock h)
                else if previousBlockState h = CodeBlock \<or> previousBlockState h = CodeBlockComment
                        \<or> previousBlockState h \<ge> CodeCpp
                then setCurrentBlockState CodeBlockEnd h
                else h);
             h2 = h1\<lparr>formats := (formats h1)
                    (MaskedSyntax := (formats h1 MaskedSyntax)
                       \<lparr>fontPointSize := fontPointSize (formats h1 CodeBlock)\<rparr>)\<rparr>
         in Some (Inr (setFormat 0 (len text) (formats h2 MaskedSyntax) h2)))
      else if previousBlockState h = CodeBlock \<or> previousBlockState h = CodeBlockComment
              \<or> previousBlockState h \<ge> CodeCpp
      then highlightSyntax fuel env text (setCurrentBlockState (previousBlockState h) h)
      else Some (Inr h))"

text \<open>\<^verbatim>\<open>highlightFrontmatterBlock\<close> and \<^verbatim>\<open>highlightCommentBlock\<close>; the latter works on the
  trimmed line and formats as many characters as the trimmed line has.\<close>

definition highlightFrontmatterBlock :: "string \<Rightarrow> MarkdownHighlighter \<Rightarrow> MarkdownHighlighter" where
  "highlightFrontmatterBlock text h =
     (if textOfBlock (document h) 0 \<noteq> ''---'' then h
      else if text = ''---'' then
        (let foundEnd = (previousBlockState h = FrontmatterBlock) in
         if \<not> foundEnd \<and> currentBlock h \<noteq> 0 then h
         else
           (let h1 = setCurrentBlockState
                       (if foundEnd then FrontmatterBlockEnd else FrontmatterBlock) h
            in setFormat 0 (len text) (formats h1 MaskedSyntax) h1))
      else if previousBlockState h = FrontmatterBlock then
        (let h1 = setCurrentBlockState FrontmatterBlock h
         in setFormat 0 (len text) (formats h1 MaskedSyntax) h1)
      else h)"

definition highlightCommentBlock :: "string \<Rightarrow> MarkdownHighlighter \<Rightarrow> MarkdownHighlighter" where
  "highlightCommentBlock text0 h =
     (let text = trimmed text0 in
      if startsWith text ''<!--'' \<and> contains text ''-->'' then h
      else if startsWith text ''<!--''
              \<or> (\<not> endsWith text ''-->'' \<and> previousBlockState h = Comment) then
        (let h1 = setCurrentBlockState Comment h
         in setFormat 0 (len text) (formats h1 Comment) h1)
      else if endsWith text ''-->'' then setFormat 0 (len text) (formats h Comment) h
      else h)"

section \<open>highlightBlock\<close>

definition highlightMarkdown ::
  "nat \<Rightarrow> Externals \<Rightarrow> string \<Rightarrow> MarkdownHighlighter \<Rightarrow> (error + MarkdownHighlighter) option" where
  "highlightMarkdown fuel env text h =
     (let h1 = (if text \<noteq> [] then
                  (let ha = highlightAdditionalRules env (highlightingRulesPre h) text h;
                       hb = highlightHeadline text ha
                   in highlightAdditionalRules env (highlightingRulesAfter hb) text hb)
                else h);
          h2 = highlightCommentBlock text h1
      in case highlightCodeBlock fuel env text h2 of
           None \<Rightarrow> None
         | Some (Inl e) \<Rightarrow> Some (Inl e)
         | Some (Inr h3) \<Rightarrow> Some (Inr (highlightFrontmatterBlock text h3)))"

text \<open>
  \<^verbatim>\<open>highlightBlock\<close>. The result is \<open>None\<close> when a scanner has not ended within the fuel,
  \<open>Some (Inl e)\<close> when a read outside the line stopped the call, and otherwise the
  highlighter after the call: the state of the current block is the line's terminal state
  and \<open>formatChanges\<close> holds the annotations.
\<close>

definition highlightBlock ::
  "nat \<Rightarrow> Externals \<Rightarrow> string \<Rightarrow> MarkdownHighlighter \<Rightarrow> (error + MarkdownHighlighter) option" where
  "highlightBlock fuel env text h =
     (case highlightMarkdown fuel env text
             (setCurrentBlockState NoState (setCurrentBlockState NoState h)) of
        None \<Rightarrow> None
      | Some (Inl e) \<Rightarrow> Some (Inl e)
      | Some (Inr h1) \<Rightarrow> Some (Inr (h1\<lparr>highlightingFinished := True\<rparr>)))"

text \<open>
  What \<^verbatim>\<open>QSyntaxHighlighter\<close> does to reformat block \<open>n\<close>: it makes the block current, with no
  format set yet, and calls \<^verbatim>\<open>highlightBlock\<close> with the block's text.
\<close>

definition reformatBlock ::
  "nat \<Rightarrow> Externals \<Rightarrow> nat \<Rightarrow> MarkdownHighlighter \<Rightarrow> (error + MarkdownHighlighter) option" where
  "reformatBlock fuel env n h =
     highlightBlock fuel env (textOfBlock (document h) (int n))
       (h\<lparr>currentBlock := n, formatChanges := []\<rparr>)"

section \<open>A highlighter on a document\<close>

text \<open>
  The constructor builds the rule tables from the highlighting options and starts with an
  empty dirty queue; \<^verbatim>\<open>setTextFormats\<close> installs the theme. \<open>newHighlighter\<close> is the
  object after both, attached to a document given by its blocks, each a line with the state
  Qt holds for it (\<open>-1\<close> for a line not highlighted yet).
\<close>

definition block :: "string \<Rightarrow> int \<Rightarrow> QTextBlock" where
  "block l s = \<lparr>blockText = l, userState = s\<rparr>"

definition newHighlighter ::
  "QTextBlock list \<Rightarrow> bool \<Rightarrow> (HighlighterState \<Rightarrow> QTextCharFormat) \<Rightarrow> MarkdownHighlighter" where
  "newHighlighter d fullQuote theme =
     \<lparr>document = d, currentBlock = 0, formatChanges = [],
      highlightingRulesPre = initHighlightingRulesPre fullQuote,
      highlightingRulesAfter = initHighlightingRulesAfter,
      dirtyTextBlocks = [], formats = theme, highlightingFinished = False,
      fullyHighlightedBlockQuote = fullQuote\<rparr>"

text \<open>The terminal state of a line and its annotations, when the call returned.\<close>

definition terminalState :: "(error + MarkdownHighlighter) option \<Rightarrow> int option" where
  "terminalState r = (case r of Some (Inr h) \<Rightarrow> Some (currentBlockState h) | _ \<Rightarrow> None)"

definition annotations ::
  "(error + MarkdownHighlighter) option \<Rightarrow> (int \<times> int \<times> QTextCharFormat) list option" where
  "annotations r = (case r of Some (Inr h) \<Rightarrow> Some (formatChanges h) | _ \<Rightarrow> None)"

definition failure :: "(error + MarkdownHighlighter) option \<Rightarrow> error option" where
  "failure r = (case r of Some (Inl e) \<Rightarrow> Some e | _ \<Rightarrow> None)"

text \<open>The annotations as (start, count, style) triples.\<close>

definition styled :: "(int \<times> int \<times> QTextCharFormat) list \<Rightarrow> (int \<times> int \<times> HighlighterState) list" where
  "styled as = map (\<lambda>a. (fst a, fst (snd a), style (snd (snd a)))) as"

text \<open>Reformatting the blocks of a list in turn, as Qt does when it highlights a document
  from its first line; a block is reformatted with the states the earlier ones left.\<close>

primrec reformatBlocks ::
  "nat \<Rightarrow> Externals \<Rightarrow> nat list \<Rightarrow> MarkdownHighlighter \<Rightarrow> (error + MarkdownHighlighter) option" where
  "reformatBlocks fuel env [] h = Some (Inr h)"
| "reformatBlocks fuel env (n # ns) h =
     (case reformatBlock fuel env n h of
        None \<Rightarrow> None
      | Some (Inl e) \<Rightarrow> Some (Inl e)
      | Some (Inr h1) \<Rightarrow> reformatBlocks fuel env ns h1)"

text \<open>A theme whose entries carry nothing but their style, and a library whose regular
  expressions match nowhere, whose language tables are empty and whose colours are invalid:
  concrete values for the inputs that a scenario does not consult.\<close>

definition plainTheme :: "HighlighterState \<Rightarrow> QTextCharFormat" where
  "plainTheme s = defaultFormat\<lparr>style := s\<rparr>"

definition noMatches :: Externals where
  "noMatches =
     \<lparr>globalMatch = (\<lambda>p t. []), loadData = (\<lambda>l. emptyData), colorIsValid = (\<lambda>c. False),
      colorLightness = (\<lambda>c. 0), toInt = (\<lambda>s. 0)\<rparr>"

definition dirtyQueue :: "(error + MarkdownHighlighter) option \<Rightarrow> nat list option" where
  "dirtyQueue r = (case r of Some (Inr h) \<Rightarrow> Some (dirtyTextBlocks h) | _ \<Rightarrow> None)"

definition statesAfter :: "(error + MarkdownHighlighter) option \<Rightarrow> int list option" where
  "statesAfter r = (case r of Some (Inr h) \<Rightarrow> Some (map userState (document h)) | _ \<Rightarrow> None)"

section \<open>Notions for the statements\<close>

text \<open>
  The current block is a block of the document; what no part of \<^verbatim>\<open>highlightBlock\<close> before
  \<^verbatim>\<open>highlightCodeBlock\<close> changes on a line that is not a setext underline; the terminal
  state section 4.D gives a fence line; the masked format \<^verbatim>\<open>highlightCodeBlock\<close> sets on
  it; and a line inside a frontmatter block.
\<close>

definition validBlock :: "MarkdownHighlighter \<Rightarrow> bool" where
  "validBlock h = (currentBlock h < length (document h))"

definition frame ::
  "MarkdownHighlighter \<Rightarrow>
     nat \<times> string list \<times> int \<times> HighlightingRule list \<times> HighlightingRule list
       \<times> (HighlighterState \<Rightarrow> QTextCharFormat) \<times> nat list" where
  "frame h =
     (currentBlock h, map blockText (document h), previousBlockState h, highlightingRulesPre h,
      highlightingRulesAfter h, formats h, dirtyTextBlocks h)"

text \<open>The part of \<^verbatim>\<open>highlightMarkdown\<close> that runs before \<^verbatim>\<open>highlightCodeBlock\<close>.\<close>

definition beforeCodeBlock :: "Externals \<Rightarrow> string \<Rightarrow> MarkdownHighlighter \<Rightarrow> MarkdownHighlighter" where
  "beforeCodeBlock env t h =
     highlightCommentBlock t
       (if t \<noteq> [] then
          (let ha = highlightAdditionalRules env (highlightingRulesPre h) t h;
               hb = highlightHeadline t ha
           in highlightAdditionalRules env (highlightingRulesAfter hb) t hb)
        else h)"

definition fenceTerminalState :: "int \<Rightarrow> string \<Rightarrow> HighlighterState" where
  "fenceTerminalState prev t =
     (if isCodeBlockState prev then CodeBlockEnd
      else if langValue (toLower (mid t 3 (len t))) \<ge> CodeCpp
      then langValue (toLower (mid t 3 (len t)))
      else CodeBlock)"

definition codeBlockMask :: "MarkdownHighlighter \<Rightarrow> QTextCharFormat" where
  "codeBlockMask h = (formats h MaskedSyntax)\<lparr>fontPointSize := fontPointSize (formats h CodeBlock)\<rparr>"

definition inFrontmatter :: "MarkdownHighlighter \<Rightarrow> bool" where
  "inFrontmatter h =
     (textOfBlock (document h) 0 = ''---'' \<and> previousBlockState h = FrontmatterBlock)"

text \<open>A later highlighter has the state of the current block unchanged and the earlier
  annotations as a prefix of its own.\<close>

definition grows :: "MarkdownHighlighter \<Rightarrow> MarkdownHighlighter \<Rightarrow> bool" where
  "grows h h' =
     (currentBlockState h' = currentBlockState h \<and> (\<exists>xs. formatChanges h' = formatChanges h @ xs))"

text \<open>
  No annotation made so far carries the style of the trailing-space entry of the theme, in a
  highlighter whose theme gives every entry its own style; and a rule that is skipped by the
  fast reject of \<^verbatim>\<open>highlightAdditionalRules\<close> on a line when it is a trailing-space rule.
\<close>

definition tsInv :: "MarkdownHighlighter \<Rightarrow> bool" where
  "tsInv h =
     ((\<forall>s. style (formats h s) = s)
      \<and> list_all (\<lambda>a. style (snd (snd a)) \<noteq> TrailingSpace) (formatChanges h))"

definition skipsTrailingSpace :: "string \<Rightarrow> HighlightingRule \<Rightarrow> bool" where
  "skipsTrailingSpace t r = (state r = TrailingSpace \<longrightarrow> \<not> passesShouldContain r t)"


definition enqueuesOnly :: "(nat \<Rightarrow> MarkdownHighlighter \<Rightarrow> MarkdownHighlighter) \<Rightarrow> bool" where
  "enqueuesOnly rehighlightBlock =
     (\<forall>b h. \<exists>bs. dirtyTextBlocks (rehighlightBlock b h) = dirtyTextBlocks (fold addDirtyBlock bs h))"


text \<open>
  A function on highlighters that commutes with \<^verbatim>\<open>setFormat\<close> and
  \<^verbatim>\<open>setCurrentBlockState\<close> and keeps the theme and the state of the current block, and its
  action on the result of a scanner.
\<close>

definition commutes :: "(MarkdownHighlighter \<Rightarrow> MarkdownHighlighter) \<Rightarrow> bool" where
  "commutes g =
     ((\<forall>a b f x. g (setFormat a b f x) = setFormat a b f (g x))
      \<and> (\<forall>s x. g (setCurrentBlockState s x) = setCurrentBlockState s (g x))
      \<and> (\<forall>x. formats (g x) = formats x)
      \<and> (\<forall>x. currentBlockState (g x) = currentBlockState x))"

definition liftScan ::
  "(MarkdownHighlighter \<Rightarrow> MarkdownHighlighter) \<Rightarrow> (error + bool \<times> MarkdownHighlighter) option
     \<Rightarrow> (error + bool \<times> MarkdownHighlighter) option" where
  "liftScan g = map_option (map_sum id (apsnd g))"

definition liftResult ::
  "(MarkdownHighlighter \<Rightarrow> MarkdownHighlighter) \<Rightarrow> (error + MarkdownHighlighter) option
     \<Rightarrow> (error + MarkdownHighlighter) option" where
  "liftResult g = map_option (map_sum id g)"

text \<open>
  What \<^verbatim>\<open>highlightBlock\<close> reads of the document besides the state of the previous line:
  whether the next line consists of \<^verbatim>\<open>=\<close> only, whether it consists of \<^verbatim>\<open>-\<close> only, whether
  the previous line is not empty, whether the first line of the document is \<^verbatim>\<open>---\<close> and
  whether the line is the first line. Two highlighters, each on a block of its document,
  that agree in these, in the states of the current and the previous line, in the theme, in
  the annotations made so far and in the rule tables; two results that are both no result,
  or the same failure, or two such highlighters; and the second highlighter with the
  annotations, the theme and the state of the current block of another.
\<close>

definition lineContext :: "MarkdownHighlighter \<Rightarrow> bool \<times> bool \<times> bool \<times> bool \<times> bool" where
  "lineContext h =
     (hasOnlyHeadChars (textOfBlock (document h) (nextBlock h)) (CHR ''=''),
      hasOnlyHeadChars (textOfBlock (document h) (nextBlock h)) (CHR ''-''),
      len (textOfBlock (document h) (previousBlock h)) > 0,
      textOfBlock (document h) 0 = ''---'',
      currentBlock h = 0)"

definition sameView :: "MarkdownHighlighter \<Rightarrow> MarkdownHighlighter \<Rightarrow> bool" where
  "sameView h h' =
     (validBlock h \<and> validBlock h'
      \<and> currentBlockState h = currentBlockState h'
      \<and> previousBlockState h = previousBlockState h'
      \<and> lineContext h = lineContext h'
      \<and> formats h = formats h'
      \<and> formatChanges h = formatChanges h'
      \<and> highlightingRulesPre h = highlightingRulesPre h'
      \<and> highlightingRulesAfter h = highlightingRulesAfter h')"

definition sameResult ::
  "(error + MarkdownHighlighter) option \<Rightarrow> (error + MarkdownHighlighter) option \<Rightarrow> bool" where
  "sameResult r r' =
     (case r of
        None \<Rightarrow> r' = None
      | Some (Inl e) \<Rightarrow> r' = Some (Inl e)
      | Some (Inr h) \<Rightarrow> (case r' of Some (Inr h') \<Rightarrow> sameView h h' | _ \<Rightarrow> False))"

definition rebase :: "MarkdownHighlighter \<Rightarrow> MarkdownHighlighter \<Rightarrow> MarkdownHighlighter" where
  "rebase X x =
     (if validBlock x
      then setCurrentBlockState (currentBlockState x)
             (X\<lparr>formatChanges := formatChanges x, formats := formats x\<rparr>)
      else x)"

section \<open>Facts about the primitives and the rule engine\<close>

lemma length_setUserState [simp]: "length (setUserState n s d) = length d"
  by (simp add: setUserState_def)

lemma map_blockText_setUserState [simp]: "map blockText (setUserState n s d) = map blockText d"
  by (auto simp: setUserState_def map_update list_update_same_conv)

lemma stateOfBlock_setUserState:
  "stateOfBlock (setUserState n s d) m
     = (if m = n \<and> 0 \<le> n \<and> n < int (length d) then s else stateOfBlock d m)"
  by (auto simp: setUserState_def stateOfBlock_def)

lemma textOfBlock_map: "textOfBlock d n = (if 0 \<le> n \<and> n < int (length (map blockText d)) then map blockText d ! nat n else [])"
  by (auto simp: textOfBlock_def)

lemma textOfBlock_cong: "map blockText d = map blockText d' \<Longrightarrow> textOfBlock d n = textOfBlock d' n"
  by (simp only: textOfBlock_map)

lemma setFormat_simps [simp]:
  "document (setFormat a b f h) = document h"
  "currentBlock (setFormat a b f h) = currentBlock h"
  "formats (setFormat a b f h) = formats h"
  "formatChanges (setFormat a b f h) = formatChanges h @ [(a, b, f)]"
  "dirtyTextBlocks (setFormat a b f h) = dirtyTextBlocks h"
  "highlightingRulesPre (setFormat a b f h) = highlightingRulesPre h"
  "highlightingRulesAfter (setFormat a b f h) = highlightingRulesAfter h"
  "currentBlockState (setFormat a b f h) = currentBlockState h"
  "previousBlockState (setFormat a b f h) = previousBlockState h"
  "validBlock (setFormat a b f h) = validBlock h"
  "frame (setFormat a b f h) = frame h"
  by (simp_all add: setFormat_def currentBlockState_def previousBlockState_def validBlock_def frame_def)

lemma setCurrentBlockState_simps [simp]:
  "currentBlock (setCurrentBlockState s h) = currentBlock h"
  "formats (setCurrentBlockState s h) = formats h"
  "formatChanges (setCurrentBlockState s h) = formatChanges h"
  "dirtyTextBlocks (setCurrentBlockState s h) = dirtyTextBlocks h"
  "highlightingRulesPre (setCurrentBlockState s h) = highlightingRulesPre h"
  "highlightingRulesAfter (setCurrentBlockState s h) = highlightingRulesAfter h"
  "previousBlockState (setCurrentBlockState s h) = previousBlockState h"
  "validBlock (setCurrentBlockState s h) = validBlock h"
  "frame (setCurrentBlockState s h) = frame h"
  by (simp_all add: setCurrentBlockState_def previousBlockState_def validBlock_def frame_def
        stateOfBlock_setUserState)

lemma currentBlockState_setCurrentBlockState [simp]:
  "validBlock h \<Longrightarrow> currentBlockState (setCurrentBlockState s h) = s"
  by (simp add: setCurrentBlockState_def currentBlockState_def validBlock_def stateOfBlock_setUserState)

lemma frameD:
  assumes "frame h' = frame h"
  shows "currentBlock h' = currentBlock h"
    and "previousBlockState h' = previousBlockState h"
    and "highlightingRulesPre h' = highlightingRulesPre h"
    and "highlightingRulesAfter h' = highlightingRulesAfter h"
    and "formats h' = formats h"
    and "dirtyTextBlocks h' = dirtyTextBlocks h"
    and "textOfBlock (document h') n = textOfBlock (document h) n"
    and "validBlock h' = validBlock h"
proof -
  from assms have m: "map blockText (document h') = map blockText (document h)"
    by (simp add: frame_def)
  from m have l: "length (document h') = length (document h)" by (rule map_eq_imp_length_eq)
  show "currentBlock h' = currentBlock h" "previousBlockState h' = previousBlockState h"
    "highlightingRulesPre h' = highlightingRulesPre h"
    "highlightingRulesAfter h' = highlightingRulesAfter h"
    "formats h' = formats h" "dirtyTextBlocks h' = dirtyTextBlocks h"
    using assms by (simp_all add: frame_def)
  show "textOfBlock (document h') n = textOfBlock (document h) n"
    using m by (rule textOfBlock_cong)
  show "validBlock h' = validBlock h"
    using assms l by (simp add: frame_def validBlock_def)
qed

lemma frame_setHeadingStyles [simp]: "frame (setHeadingStyles r m g h) = frame h"
  by (simp add: setHeadingStyles_def Let_def)

lemma frame_applyMatch [simp]: "frame (applyMatch rule m h) = frame h"
  unfolding applyMatch_def Let_def
  apply (cases "capturingGroup rule > 0 \<and> \<not> (inHeading h \<and> state rule \<noteq> InlineCodeBlock)")
   apply (simp_all only: if_True if_False)
   apply (simp_all split: if_split)
  done

lemma frame_fold_applyMatch [simp]: "frame (fold (applyMatch rule) ms h) = frame h"
  by (induction ms arbitrary: h) simp_all

lemma frame_applyRule [simp]: "frame (applyRule env t rule h) = frame h"
  by (simp add: applyRule_def Let_def)

lemma frame_highlightAdditionalRules [simp]: "frame (highlightAdditionalRules env rules t h) = frame h"
  unfolding highlightAdditionalRules_def by (induction rules arbitrary: h) simp_all

lemma frame_highlightCommentBlock [simp]: "frame (highlightCommentBlock t h) = frame h"
  by (simp add: highlightCommentBlock_def Let_def)

lemma frame_highlightHeadline:
  "\<not> hasOnlyHeadChars t (CHR ''='') \<Longrightarrow> \<not> hasOnlyHeadChars t (CHR ''-'')
     \<Longrightarrow> frame (highlightHeadline t h) = frame h"
  by (simp add: highlightHeadline_def Let_def)

lemma startsWith_Cons: "startsWith t (c # p) \<Longrightarrow> t \<noteq> [] \<and> hd t = c"
  by (cases t) (auto simp: startsWith_def)

lemma hasOnlyHeadChars_hd: "hasOnlyHeadChars t c \<Longrightarrow> hd t = c"
  by (cases t) (auto simp: hasOnlyHeadChars_def)

lemma highlightMarkdown_beforeCodeBlock:
  "highlightMarkdown fuel env t h =
     (case highlightCodeBlock fuel env t (beforeCodeBlock env t h) of
        None \<Rightarrow> None
      | Some (Inl e) \<Rightarrow> Some (Inl e)
      | Some (Inr h3) \<Rightarrow> Some (Inr (highlightFrontmatterBlock t h3)))"
  by (simp add: highlightMarkdown_def beforeCodeBlock_def Let_def)

lemma frame_beforeCodeBlock:
  "\<not> hasOnlyHeadChars t (CHR ''='') \<Longrightarrow> \<not> hasOnlyHeadChars t (CHR ''-'')
     \<Longrightarrow> frame (beforeCodeBlock env t h) = frame h"
  by (simp add: beforeCodeBlock_def Let_def frame_highlightHeadline)

lemma highlightCodeBlock_fence:
  assumes f: "startsWith t [CHR 0x60, CHR 0x60, CHR 0x60]" and v: "validBlock h"
  shows "\<exists>h'. highlightCodeBlock fuel env t h = Some (Inr h')
    \<and> currentBlockState h' = fenceTerminalState (previousBlockState h) t
    \<and> previousBlockState h' = previousBlockState h
    \<and> currentBlock h' = currentBlock h
    \<and> validBlock h'
    \<and> map blockText (document h') = map blockText (document h)
    \<and> formats h' MaskedSyntax = codeBlockMask h
    \<and> formatChanges h' = formatChanges h @ [(0, len t, codeBlockMask h)]"
proof -
  define h1 where "h1 = setCurrentBlockState (fenceTerminalState (previousBlockState h) t) h"
  define h2 where "h2 = h1\<lparr>formats := (formats h1)(MaskedSyntax := codeBlockMask h)\<rparr>"
  have e: "highlightCodeBlock fuel env t h = Some (Inr (setFormat 0 (len t) (formats h2 MaskedSyntax) h2))"
    using f
    by (auto simp: highlightCodeBlock_def Let_def h1_def h2_def fenceTerminalState_def
          isCodeBlockState_def codeBlockMask_def)
  have c: "currentBlockState h2 = fenceTerminalState (previousBlockState h) t"
    using v by (simp add: h2_def h1_def currentBlockState_def setCurrentBlockState_def
          validBlock_def stateOfBlock_setUserState)
  have p: "previousBlockState h2 = previousBlockState h"
    by (simp add: h2_def h1_def previousBlockState_def setCurrentBlockState_def
          stateOfBlock_setUserState)
  have b: "currentBlock h2 = currentBlock h" "validBlock h2"
    "map blockText (document h2) = map blockText (document h)"
    "formats h2 MaskedSyntax = codeBlockMask h" "formatChanges h2 = formatChanges h"
    using v by (simp_all add: h2_def h1_def validBlock_def setCurrentBlockState_def)
  show ?thesis
    using e c p b by (simp add: currentBlockState_def previousBlockState_def validBlock_def)
qed

lemma highlightFrontmatterBlock_fence:
  assumes f: "startsWith t [CHR 0x60, CHR 0x60, CHR 0x60]" and v: "validBlock h"
  shows "currentBlockState (highlightFrontmatterBlock t h)
           = (if inFrontmatter h then FrontmatterBlock else currentBlockState h)
    \<and> formatChanges (highlightFrontmatterBlock t h)
           = (if inFrontmatter h then formatChanges h @ [(0, len t, formats h MaskedSyntax)]
              else formatChanges h)"
proof -
  from f have "t \<noteq> ''---''" by (auto simp: startsWith_def)
  then show ?thesis
    using v by (auto simp: highlightFrontmatterBlock_def Let_def inFrontmatter_def)
qed

lemma fence_line:
  assumes f: "startsWith t [CHR 0x60, CHR 0x60, CHR 0x60]" and v: "validBlock h"
  shows "\<exists>h'. highlightBlock fuel env t h = Some (Inr h')
    \<and> currentBlockState h'
        = (if inFrontmatter h then FrontmatterBlock
           else fenceTerminalState (previousBlockState h) t)
    \<and> formatChanges h' \<noteq> []
    \<and> last (formatChanges h') = (0, len t, codeBlockMask h)"
proof -
  define h0 where "h0 = setCurrentBlockState NoState (setCurrentBlockState NoState h)"
  define h2 where "h2 = beforeCodeBlock env t h0"
  from startsWith_Cons [OF f] have hd: "t \<noteq> []" "hd t = CHR 0x60" by simp_all
  have n1: "\<not> hasOnlyHeadChars t (CHR ''='')" and n2: "\<not> hasOnlyHeadChars t (CHR ''-'')"
    using hd hasOnlyHeadChars_hd [of t "CHR ''=''"] hasOnlyHeadChars_hd [of t "CHR ''-''"]
    by auto
  have fr0: "frame h0 = frame h" by (simp add: h0_def)
  have fr: "frame h2 = frame h"
    unfolding h2_def using frame_beforeCodeBlock [OF n1 n2] fr0 by simp
  note d = frameD [OF fr]
  have v2: "validBlock h2" using d(8) v by simp
  from highlightCodeBlock_fence [OF f v2, of fuel env]
  obtain h3 where h3: "highlightCodeBlock fuel env t h2 = Some (Inr h3)"
    "currentBlockState h3 = fenceTerminalState (previousBlockState h2) t"
    "previousBlockState h3 = previousBlockState h2"
    "currentBlock h3 = currentBlock h2" "validBlock h3"
    "map blockText (document h3) = map blockText (document h2)"
    "formats h3 MaskedSyntax = codeBlockMask h2"
    "formatChanges h3 = formatChanges h2 @ [(0, len t, codeBlockMask h2)]"
    by blast
  have m: "codeBlockMask h2 = codeBlockMask h" using d(5) by (simp add: codeBlockMask_def)
  have i3: "inFrontmatter h3 = inFrontmatter h"
    using h3(3) d(2) d(7) [of 0] textOfBlock_cong [OF h3(6), of 0]
    by (simp add: inFrontmatter_def)
  define h4 where "h4 = highlightFrontmatterBlock t h3"
  from highlightFrontmatterBlock_fence [OF f h3(5)]
  have h4: "currentBlockState h4
        = (if inFrontmatter h then FrontmatterBlock else fenceTerminalState (previousBlockState h) t)"
    "formatChanges h4 \<noteq> []" "last (formatChanges h4) = (0, len t, codeBlockMask h)"
    using h3(2) h3(7) h3(8) i3 m d(2) by (auto simp: h4_def)
  have "highlightBlock fuel env t h = Some (Inr (h4\<lparr>highlightingFinished := True\<rparr>))"
    using h3(1)
    by (simp add: highlightBlock_def highlightMarkdown_beforeCodeBlock h0_def h2_def h4_def)
  then show ?thesis using h4 by (simp add: currentBlockState_def)
qed

lemma hashRun_headline:
  assumes t: "t = replicate k (CHR ''#'') @ CHR '' '' # rest" and k: "k \<le> 6"
  shows "j \<le> k \<Longrightarrow> hashRun t (int j) = int k"
proof (induction "k - j" arbitrary: j)
  case 0
  then have "j = k" by simp
  then have "charAt t (int j) = CHR '' ''" using t by (simp add: charAt_def nth_append)
  then show ?case using \<open>j = k\<close> by (subst hashRun.simps) simp
next
  case (Suc n)
  then have lt: "j < k" by simp
  then have c: "charAt t (int j) = CHR ''#''" using t by (simp add: charAt_def nth_append)
  have l: "int j < len t" using lt t by (simp add: len_def)
  have "n = k - Suc j" "Suc j \<le> k" using Suc.hyps(2) lt by simp_all
  then have "hashRun t (int (Suc j)) = int k" by (rule Suc.hyps(1))
  then show ?case using c l lt k by (subst hashRun.simps) (simp add: add.commute)
qed

lemma headingLevel_headline:
  assumes t: "t = replicate k (CHR ''#'') @ CHR '' '' # rest" and k: "1 \<le> k" "k \<le> 6"
  shows "headingLevel t = int k"
proof -
  have r: "hashRun t 1 = int k" using hashRun_headline [OF t k(2), of 1] k(1) by simp
  have c0: "charAt t 0 = CHR ''#''" using t k(1) by (cases k) (simp_all add: charAt_def)
  have ck: "charAt t (int k) = CHR '' ''" using t by (simp add: charAt_def nth_append)
  have l: "int k < len t" using t by (simp add: len_def)
  show ?thesis using r c0 ck l by (simp add: headingLevel_def)
qed

lemma highlightHeadline_headline:
  assumes t: "t = replicate k (CHR ''#'') @ CHR '' '' # rest" and k: "1 \<le> k" "k \<le> 6"
  shows "highlightHeadline t h
    = setCurrentBlockState (H1 + int k - 1) (setFormat 0 (len t) (formats h (H1 + int k - 1)) h)"
proof -
  have l: "\<not> 1 \<ge> len t" using t k(1) by (simp add: len_def)
  show ?thesis
    using headingLevel_headline [OF t k] l k(1) by (simp add: highlightHeadline_def Let_def)
qed



lemma grows_refl [simp]: "grows h h"
  by (simp add: grows_def)

lemma grows_trans: "grows h h1 \<Longrightarrow> grows h1 h2 \<Longrightarrow> grows h h2"
  by (auto simp: grows_def)

lemma grows_setFormat [simp]: "grows h (setFormat a b f h)"
  by (simp add: grows_def)

lemma grows_setHeadingStyles [simp]: "grows h (setHeadingStyles r m g h)"
  by (simp add: setHeadingStyles_def Let_def)

lemma grows_applyMatch [simp]: "grows h (applyMatch rule m h)"
proof -
  define h1 where "h1 = (if capturingGroup rule > 0 \<and> \<not> (inHeading h \<and> state rule \<noteq> InlineCodeBlock)
                then setFormat (capturedStart m (maskedGroup rule))
                       (capturedLength m (maskedGroup rule)) (if fontPointSize (formats h (state rule)) > 0
             then (formats h MaskedSyntax)\<lparr>fontPointSize := fontPointSize (formats h (state rule))\<rparr>
             else formats h MaskedSyntax) h
                else h)"
  have f1: "grows h h1" unfolding h1_def by simp
  have e: "applyMatch rule m h = (if inHeading h1 \<and> state rule \<noteq> InlineCodeBlock
         then setHeadingStyles (state rule) m (capturingGroup rule) h1
         else setFormat (capturedStart m (capturingGroup rule))
                (capturedLength m (capturingGroup rule)) (formats h (state rule)) h1)"
    unfolding applyMatch_def h1_def Let_def ..
  have "grows h1 (applyMatch rule m h)" unfolding e by simp
  with f1 show ?thesis by (rule grows_trans)
qed

lemma grows_fold_applyMatch: "grows h (fold (applyMatch rule) ms h)"
proof (induction ms arbitrary: h)
  case Nil
  show ?case by simp
next
  case (Cons m ms)
  from grows_trans [OF grows_applyMatch Cons.IH] show ?case by simp
qed

lemma grows_applyRule:
  "\<not> useStateAsCurrentBlockState rule \<Longrightarrow> grows h (applyRule env t rule h)"
  by (simp add: applyRule_def Let_def grows_fold_applyMatch)

lemma grows_highlightAdditionalRules:
  "list_all (\<lambda>r. \<not> useStateAsCurrentBlockState r) rules
     \<Longrightarrow> grows h (highlightAdditionalRules env rules t h)"
  unfolding highlightAdditionalRules_def
proof (induction rules arbitrary: h)
  case Nil
  show ?case by simp
next
  case (Cons r rules)
  then have a: "grows h (applyRule env t r h)" by (simp add: grows_applyRule)
  have b: "grows (applyRule env t r h) (fold (applyRule env t) rules (applyRule env t r h))"
    using Cons by simp
  from grows_trans [OF a b] show ?case by simp
qed

lemma rulesAfter_no_state: "list_all (\<lambda>r. \<not> useStateAsCurrentBlockState r) initHighlightingRulesAfter"
  by (simp add: initHighlightingRulesAfter_def mkRule_def)

lemma dropWhile_snoc_keeps: "\<not> P c \<Longrightarrow> \<exists>ys. dropWhile P (xs @ [c]) = ys @ [c]"
  by (induction xs) auto

lemma trimmed_Cons: "\<not> isSpace c \<Longrightarrow> \<exists>ys. trimmed (c # cs) = c # ys"
proof -
  assume n: "\<not> isSpace c"
  from dropWhile_snoc_keeps [of isSpace c "rev cs"] n
  obtain ys where "dropWhile isSpace (rev cs @ [c]) = ys @ [c]" by blast
  then show ?thesis using n by (simp add: trimmed_def)
qed

lemma grows_highlightCommentBlock:
  assumes "t = c # cs" and "\<not> isSpace c" and "c \<noteq> CHR ''<''" and "previousBlockState h \<noteq> Comment"
  shows "grows h (highlightCommentBlock t h)"
proof -
  from trimmed_Cons [OF assms(2), of cs] assms(1) obtain ys where y: "trimmed t = c # ys" by blast
  then have "\<not> startsWith (trimmed t) ''<!--''" using assms(3) by (simp add: startsWith_def)
  then show ?thesis using assms(4) by (simp add: highlightCommentBlock_def Let_def)
qed

lemma go_registry: "fenceTerminalState prev ([CHR 0x60, CHR 0x60, CHR 0x60] @ ''go'') = (if isCodeBlockState prev then CodeBlockEnd else CodeCSharp)"
proof -
  have "langValue (toLower (mid ([CHR 0x60, CHR 0x60, CHR 0x60] @ ''go'') 3 (len ([CHR 0x60, CHR 0x60, CHR 0x60] @ ''go'')))) = 218"
    by code_simp
  then show ?thesis by (simp add: fenceTerminalState_def)
qed

section \<open>Scenarios on concrete lines\<close>

text \<open>
  C2. The line \<^verbatim>\<open>int x = 0x2A;\<close> after a line in state \<open>CodeCpp\<close>, with language tables
  that hold the type \<^verbatim>\<open>int\<close>, for every theme and every regular expression engine: the
  whole line gets the code-block format and \<^verbatim>\<open>int\<close> the type format, and that is all.
  \<^verbatim>\<open>0x2A\<close> gets no numeric-literal format: the number scanner takes \<^verbatim>\<open>0x\<close> and the digit
  \<^verbatim>\<open>2\<close>, stops at \<^verbatim>\<open>A\<close>, which is not among the characters allowed after a number, and
  sets nothing.
\<close>

theorem hex_literal_with_letter_digit_not_highlighted:
  "annotations
     (reformatBlock 100
        \<lparr>globalMatch = gm,
         loadData = (\<lambda>l. emptyData\<lparr>data_types := (\<lambda>c. if c = CHR ''i'' then [''int''] else [])\<rparr>),
         colorIsValid = cv, colorLightness = cl, toInt = ti\<rparr>
        1
        (newHighlighter
           [block ([CHR 0x60, CHR 0x60, CHR 0x60] @ ''cpp'') CodeCpp, block ''int x = 0x2A;'' NoState]
           fq theme))
   = Some [(0, 13, theme CodeBlock), (0, 3, theme CodeType)]"
  apply code_simp
  apply simp?
  done

lemma numeric_scanner_on_0x2A: "highlightNumericLiterals ''int x = 0x2A;'' 8 h = (10, h)"
  unfolding highlightNumericLiterals_def
  apply (simp add: isPreAllowed_def charAt_def len_def)
  apply (simp add: skipWhile.simps charAt_def len_def isNumber_def)
  apply (simp add: isPostAllowedPlain_def isPostSuffix_def)
  done

lemma numeric_scanner_on_0x10:
  "highlightNumericLiterals ''int x = 0x10;'' 8 h = (12, setFormat 8 4 (formats h CodeNumLiteral) h)"
  unfolding highlightNumericLiterals_def
  apply (simp add: isPreAllowed_def charAt_def len_def)
  apply (simp add: skipWhile.simps charAt_def len_def isNumber_def)
  apply (simp add: isPostAllowedPlain_def isPostSuffix_def)
  done

text \<open>
  C3. A line of one space after a line in state \<open>CodeYAML\<close>: the call stops at a read
  outside the string, \<^verbatim>\<open>text.trimmed().at(0)\<close> on the empty trimmed line.
\<close>

theorem yaml_blank_line_reads_out_of_range:
  "failure
     (reformatBlock 100
        \<lparr>globalMatch = gm, loadData = ld, colorIsValid = cv, colorLightness = cl, toInt = ti\<rparr>
        1
        (newHighlighter
           [block ([CHR 0x60, CHR 0x60, CHR 0x60] @ ''yaml'') CodeYAML, block '' '' NoState]
           fq theme))
   = Some IndexOutOfRange"
  apply code_simp
  apply simp?
  done

text \<open>Further lines outside the claim C3 makes: a range that ends past the line, a read
  past the last character in the XML and the tagger script scanners, and a hex escape cut
  short in a string literal.\<close>

lemma line_comment_range_exceeds_line:
  "annotations
     (reformatBlock 100
        \<lparr>globalMatch = gm, loadData = (\<lambda>l. emptyData), colorIsValid = cv, colorLightness = cl,
         toInt = ti\<rparr>
        1
        (newHighlighter
           [block ([CHR 0x60, CHR 0x60, CHR 0x60] @ ''cpp'') CodeCpp, block ''x //y'' NoState]
           fq theme))
   = Some [(0, 5, theme CodeBlock), (2, 5, theme CodeComment)]"
  apply code_simp
  apply simp?
  done

lemma xml_open_bracket_at_end_reads_out_of_range:
  "failure
     (reformatBlock 100
        \<lparr>globalMatch = (\<lambda>p t. []), loadData = ld, colorIsValid = cv, colorLightness = cl,
         toInt = ti\<rparr>
        1
        (newHighlighter
           [block ([CHR 0x60, CHR 0x60, CHR 0x60] @ ''xml'') CodeXML, block ''a <'' NoState]
           fq theme))
   = Some IndexOutOfRange"
  apply code_simp
  apply simp?
  done

lemma tagger_open_percent_at_end_reads_out_of_range:
  "failure
     (reformatBlock 100
        \<lparr>globalMatch = gm, loadData = ld, colorIsValid = cv, colorLightness = cl, toInt = ti\<rparr>
        1
        (newHighlighter
           [block ([CHR 0x60, CHR 0x60, CHR 0x60] @ ''taggerscript'') CodeTaggerScript,
            block ''%'' NoState]
           fq theme))
   = Some IndexOutOfRange"
  apply code_simp
  apply simp?
  done

text \<open>
  C7. The document \<^verbatim>\<open>Title\<close>, \<^verbatim>\<open>=====\<close> in which the first line has been highlighted
  before the second existed, so that its state is \<open>NoState\<close>: reformatting the second line
  masks it at the point size of \<open>H1\<close>, ends it in \<open>HeadlineEnd\<close> and sets the state of the
  first line to \<open>H1\<close>, and the dirty queue stays empty.
\<close>

theorem setext_underline_does_not_requeue_previous_line:
  "annotations
     (reformatBlock fuel
        \<lparr>globalMatch = gm, loadData = ld, colorIsValid = cv, colorLightness = cl, toInt = ti\<rparr>
        1 (newHighlighter [block ''Title'' NoState, block ''====='' NoState] fq theme))
   = Some [(0, 5, (theme MaskedSyntax)\<lparr>fontPointSize := fontPointSize (theme H1)\<rparr>)]
   \<and> statesAfter
     (reformatBlock fuel
        \<lparr>globalMatch = gm, loadData = ld, colorIsValid = cv, colorLightness = cl, toInt = ti\<rparr>
        1 (newHighlighter [block ''Title'' NoState, block ''====='' NoState] fq theme))
   = Some [H1, HeadlineEnd]
   \<and> dirtyQueue
     (reformatBlock fuel
        \<lparr>globalMatch = gm, loadData = ld, colorIsValid = cv, colorLightness = cl, toInt = ti\<rparr>
        1 (newHighlighter [block ''Title'' NoState, block ''====='' NoState] fq theme))
   = Some []"
  apply code_simp
  apply simp?
  done

text \<open>The test before \<^verbatim>\<open>addDirtyBlock\<close> reads the state that the statement before it has
  just written, so \<^verbatim>\<open>highlightSubHeadline\<close> leaves the queue as it is, on every input.\<close>

lemma highlightSubHeadline_keeps_queue:
  "dirtyTextBlocks (highlightSubHeadline t st h) = dirtyTextBlocks h"
  by (auto simp: highlightSubHeadline_def Let_def previousBlockState_def previousBlock_def
        setCurrentBlockState_def setFormat_def stateOfBlock_def setUserState_def textOfBlock_def
        addDirtyBlock_def len_def nth_list_update)

text \<open>The first line, reformatted once the underline is there, becomes \<open>H1\<close> by the look at
  the next line.\<close>

lemma setext_title_line_looks_ahead:
  "annotations
     (reformatBlock fuel
        \<lparr>globalMatch = gm, loadData = ld, colorIsValid = cv, colorLightness = cl, toInt = ti\<rparr>
        0 (newHighlighter [block ''Title'' NoState, block ''====='' NoState] fq theme))
   = Some [(0, 5, theme H1)]
   \<and> statesAfter
     (reformatBlock fuel
        \<lparr>globalMatch = gm, loadData = ld, colorIsValid = cv, colorLightness = cl, toInt = ti\<rparr>
        0 (newHighlighter [block ''Title'' NoState, block ''====='' NoState] fq theme))
   = Some [H1, NoState]"
  apply code_simp
  apply simp?
  done

text \<open>
  C8. The YAML scanner on the line \<^verbatim>\<open>C:/tmp\<close>: the colon is followed by \<^verbatim>\<open>/\<close> and the span
  before it is formatted as keyword all the same.
\<close>

theorem yaml_path_colon_is_highlighted:
  "map_sum id formatChanges (ymlHighlighter ''C:/tmp'' (newHighlighter d fq theme))
   = Inr [(0, 1, theme CodeKeyWord)]"
  apply code_simp
  apply simp?
  done

lemma yaml_path_backslash_colon_is_highlighted:
  "map_sum id formatChanges (ymlHighlighter [CHR ''C'', CHR '':'', CHR 0x5C, CHR ''x''] (newHighlighter d fq theme))
   = Inr [(0, 1, theme CodeKeyWord)]"
  apply code_simp
  apply simp?
  done

section \<open>The dirty queue\<close>










section \<open>Fence lines\<close>

text \<open>
  C1. The line of three backticks and \<^verbatim>\<open>go\<close>, on a block of the document whose previous
  line is not in a code block and that is not inside a frontmatter block: the terminal
  state is \<open>CodeCSharp\<close>, as \<^verbatim>\<open>initCodeLangs\<close> registers the tag, and not \<open>CodeGo\<close>.
\<close>

theorem go_fence_opens_CSharp_block:
  assumes "validBlock h" and "\<not> isCodeBlockState (previousBlockState h)" and "\<not> inFrontmatter h"
  shows "terminalState (highlightBlock fuel env ([CHR 0x60, CHR 0x60, CHR 0x60] @ ''go'') h) = Some CodeCSharp"
proof -
  have f: "startsWith ([CHR 0x60, CHR 0x60, CHR 0x60] @ ''go'') [CHR 0x60, CHR 0x60, CHR 0x60]"
    by (simp add: startsWith_def)
  from fence_line [OF f assms(1), of fuel env] assms(2,3) go_registry [of "previousBlockState h"]
  show ?thesis by (auto simp: terminalState_def)
qed

theorem go_fence_witness:
  "validBlock (newHighlighter [block ([CHR 0x60, CHR 0x60, CHR 0x60] @ ''go'') NoState] False plainTheme)
   \<and> \<not> isCodeBlockState (previousBlockState (newHighlighter [block ([CHR 0x60, CHR 0x60, CHR 0x60] @ ''go'') NoState] False plainTheme))
   \<and> \<not> inFrontmatter (newHighlighter [block ([CHR 0x60, CHR 0x60, CHR 0x60] @ ''go'') NoState] False plainTheme)
   \<and> terminalState (highlightBlock 0 noMatches ([CHR 0x60, CHR 0x60, CHR 0x60] @ ''go'')
        (newHighlighter [block ([CHR 0x60, CHR 0x60, CHR 0x60] @ ''go'') NoState] False plainTheme)) = Some CodeCSharp"
proof -
  let ?h = "newHighlighter [block ([CHR 0x60, CHR 0x60, CHR 0x60] @ ''go'') NoState] False plainTheme"
  have a: "validBlock ?h" by (simp add: validBlock_def newHighlighter_def)
  have b: "\<not> isCodeBlockState (previousBlockState ?h)"
    by (simp add: isCodeBlockState_def previousBlockState_def newHighlighter_def stateOfBlock_def)
  have c: "\<not> inFrontmatter ?h"
    by (simp add: inFrontmatter_def previousBlockState_def newHighlighter_def stateOfBlock_def)
  from go_fence_opens_CSharp_block [OF a b c, of 0 noMatches] a b c show ?thesis by simp
qed

text \<open>
  C5, as the code has it. A line whose text, untrimmed, begins with three backticks, on a
  block of the document: inside a frontmatter block the terminal state stays
  \<open>FrontmatterBlock\<close>; otherwise it is \<open>CodeBlockEnd\<close> when the previous state is a
  code-block state, and else the registered state of the lowercased rest of the line, or
  \<open>CodeBlock\<close> when the registry has none. In every case the last annotation covers the
  whole line with the masked-syntax format, at the point size of the code-block format.
\<close>

theorem fence_line_state_and_mask:
  assumes "startsWith t [CHR 0x60, CHR 0x60, CHR 0x60]" and "validBlock h"
  shows "terminalState (highlightBlock fuel env t h)
      = Some (if inFrontmatter h then FrontmatterBlock
              else fenceTerminalState (previousBlockState h) t)
    \<and> (\<exists>as. annotations (highlightBlock fuel env t h) = Some (as @ [(0, len t, codeBlockMask h)]))"
proof -
  from fence_line [OF assms, of fuel env]
  obtain h' where h': "highlightBlock fuel env t h = Some (Inr h')"
    "currentBlockState h'
        = (if inFrontmatter h then FrontmatterBlock
           else fenceTerminalState (previousBlockState h) t)"
    "formatChanges h' \<noteq> []" "last (formatChanges h') = (0, len t, codeBlockMask h)"
    by blast
  from h'(3,4) have "formatChanges h' = butlast (formatChanges h') @ [(0, len t, codeBlockMask h)]"
    using append_butlast_last_id [of "formatChanges h'"] by simp
  then have "\<exists>as. formatChanges h' = as @ [(0, len t, codeBlockMask h)]" ..
  with h'(1,2) show ?thesis by (simp add: terminalState_def annotations_def)
qed

theorem fence_line_witness:
  "startsWith ([CHR 0x60, CHR 0x60, CHR 0x60] @ ''cpp'') [CHR 0x60, CHR 0x60, CHR 0x60]
   \<and> validBlock (newHighlighter [block ([CHR 0x60, CHR 0x60, CHR 0x60] @ ''cpp'') NoState] False plainTheme)
   \<and> terminalState
       (highlightBlock 0 noMatches ([CHR 0x60, CHR 0x60, CHR 0x60] @ ''cpp'')
          (newHighlighter [block ([CHR 0x60, CHR 0x60, CHR 0x60] @ ''cpp'') NoState] False plainTheme))
     = Some CodeCpp"
proof -
  let ?t = "[CHR 0x60, CHR 0x60, CHR 0x60] @ ''cpp''"
  let ?h = "newHighlighter [block ?t NoState] False plainTheme"
  have a: "startsWith ?t [CHR 0x60, CHR 0x60, CHR 0x60]" by (simp add: startsWith_def)
  have b: "validBlock ?h" by (simp add: validBlock_def newHighlighter_def)
  have c: "\<not> inFrontmatter ?h"
    by (simp add: inFrontmatter_def previousBlockState_def newHighlighter_def stateOfBlock_def)
  have d: "fenceTerminalState (previousBlockState ?h) ?t = CodeCpp" by code_simp
  from fence_line_state_and_mask [OF a b, of 0 noMatches] a b c d show ?thesis by simp
qed

text \<open>
  C5 as stated fails on a fence that is indented and on a fence inside a frontmatter
  block. The line of a space and three backticks, first in its document, ends in
  \<open>NoState\<close>; the line of three backticks after a line in state \<open>FrontmatterBlock\<close>, in a
  document that starts with \<^verbatim>\<open>---\<close>, ends in \<open>FrontmatterBlock\<close>. The regular expression
  engine gives the one match the inline-code pattern has on each line.
\<close>

theorem indented_fence_and_frontmatter_fence:
  "terminalState
     (reformatBlock 0 (noMatches\<lparr>globalMatch := (\<lambda>p t. if p = InlineCodeRx then [[(1, 3), (2, 1)]] else [])\<rparr>) 0
        (newHighlighter [block ([CHR '' '', CHR 0x60, CHR 0x60, CHR 0x60]) NoState] False plainTheme))
   = Some NoState
   \<and> terminalState
     (reformatBlock 0 (noMatches\<lparr>globalMatch := (\<lambda>p t. if p = InlineCodeRx then [[(0, 3), (1, 1)]] else [])\<rparr>) 1
        (newHighlighter [block ''---'' FrontmatterBlock, block ([CHR 0x60, CHR 0x60, CHR 0x60]) NoState] False plainTheme))
   = Some FrontmatterBlock"
  apply code_simp
  apply simp?
  done

section \<open>Headings\<close>

lemma applyRule_skipped: "\<not> passesShouldContain rule t \<Longrightarrow> applyRule env t rule h = h"
  by (simp add: applyRule_def)

lemma highlightAdditionalRules_skipped:
  "list_all (\<lambda>r. \<not> passesShouldContain r t) rules \<Longrightarrow> highlightAdditionalRules env rules t h = h"
  unfolding highlightAdditionalRules_def
  by (induction rules) (simp_all add: applyRule_skipped)

lemma heading_one_skips_rulesPre:
  "list_all (\<lambda>r. \<not> passesShouldContain r ''# Heading one'') (initHighlightingRulesPre fq)"
  by (cases fq) (simp; code_simp)+

lemma heading_one_skips_rulesAfter:
  "list_all (\<lambda>r. \<not> passesShouldContain r ''# Heading one'') initHighlightingRulesAfter"
  by code_simp

lemma heading_one_no_comment:
  "previousBlockState h \<noteq> Comment \<Longrightarrow> highlightCommentBlock ''# Heading one'' h = h"
proof -
  have a: "trimmed ''# Heading one'' = ''# Heading one''" by code_simp
  have b: "\<not> startsWith ''# Heading one'' ''<!--''" by code_simp
  have c: "\<not> endsWith ''# Heading one'' ''-->''" by code_simp
  assume "previousBlockState h \<noteq> Comment"
  then show ?thesis unfolding highlightCommentBlock_def Let_def a using b c by simp
qed

text \<open>
  C6, as the code has it. A line of \<open>k\<close> characters \<^verbatim>\<open>#\<close>, \<open>1 \<le> k \<le> 6\<close>, and a space,
  whatever follows, on a block of the document of a highlighter with the rules of
  \<^verbatim>\<open>initHighlightingRules\<close>, when the previous line's state is not \<open>Comment\<close>, not a
  code-block state and not \<open>FrontmatterBlock\<close>: the terminal state is the \<open>k\<close>-th heading
  state and the annotations hold one that covers the whole line with that heading's format.
  On the line \<^verbatim>\<open># Heading one\<close> that annotation is the only one the call makes: none is
  made for the leading \<^verbatim>\<open>#\<close>.
\<close>

theorem atx_heading_line:
  assumes v: "validBlock h"
    and rules: "highlightingRulesAfter h = initHighlightingRulesAfter"
    and t: "t = replicate k (CHR ''#'') @ CHR '' '' # rest" and k: "1 \<le> k" "k \<le> 6"
    and p: "previousBlockState h \<noteq> Comment" "\<not> isCodeBlockState (previousBlockState h)"
      "previousBlockState h \<noteq> FrontmatterBlock"
  shows "terminalState (highlightBlock fuel env t h) = Some (H1 + int k - 1)
    \<and> (\<exists>as bs. annotations (highlightBlock fuel env t h)
          = Some (as @ (0, len t, formats h (H1 + int k - 1)) # bs))
    \<and> (t = ''# Heading one'' \<and> highlightingRulesPre h = initHighlightingRulesPre fq
         \<longrightarrow> annotations (highlightBlock fuel env t h)
               = Some (formatChanges h @ [(0, 13, formats h H1)]))"
proof -
  define st where "st = H1 + int k - 1"
  define h0 where "h0 = setCurrentBlockState NoState (setCurrentBlockState NoState h)"
  define ha where "ha = highlightAdditionalRules env (highlightingRulesPre h0) t h0"
  define hb where "hb = highlightHeadline t ha"
  define hc where "hc = highlightAdditionalRules env (highlightingRulesAfter hb) t hb"
  define hd where "hd = highlightCommentBlock t hc"
  obtain cs where tc: "t = CHR ''#'' # cs" using t k(1) by (cases k) auto
  have ne: "t \<noteq> []" using tc by simp
  have fa: "frame ha = frame h" by (simp add: ha_def h0_def)
  note da = frameD [OF fa]
  have hb_eq: "hb = setCurrentBlockState st (setFormat 0 (len t) (formats h st) ha)"
    unfolding hb_def st_def using highlightHeadline_headline [OF t k, of ha] da(5) by simp
  have fb: "frame hb = frame h" using fa by (simp add: hb_eq)
  note db = frameD [OF fb]
  have sb: "currentBlockState hb = st" using da(8) v by (simp add: hb_eq)
  have cb: "formatChanges hb = formatChanges ha @ [(0, len t, formats h st)]" by (simp add: hb_eq)
  have gc: "grows hb hc"
    unfolding hc_def using grows_highlightAdditionalRules [OF rulesAfter_no_state] db(4) rules by simp
  have fc: "frame hc = frame h" using fb by (simp add: hc_def)
  note dc = frameD [OF fc]
  have gd: "grows hc hd"
    unfolding hd_def using grows_highlightCommentBlock [OF tc, of hc] dc(2) p(1)
    by (simp add: isSpace_def)
  have fd: "frame hd = frame h" using fc by (simp add: hd_def)
  note dd = frameD [OF fd]
  have g: "grows hb hd" using gc gd by (rule grows_trans)
  have nf: "\<not> startsWith t [CHR 0x60, CHR 0x60, CHR 0x60]" using tc by (simp add: startsWith_def)
  have cbk: "highlightCodeBlock fuel env t hd = Some (Inr hd)"
    using nf p(2) dd(2) by (simp add: highlightCodeBlock_def isCodeBlockState_def)
  have fm: "highlightFrontmatterBlock t hd = hd"
    using tc p(3) dd(2) by (simp add: highlightFrontmatterBlock_def)
  have "beforeCodeBlock env t h0 = hd"
    using ne by (simp add: beforeCodeBlock_def Let_def hd_def hc_def hb_def ha_def)
  then have r: "highlightBlock fuel env t h = Some (Inr (hd\<lparr>highlightingFinished := True\<rparr>))"
    using cbk fm by (simp add: highlightBlock_def highlightMarkdown_beforeCodeBlock h0_def)
  from g sb have s: "currentBlockState hd = st" by (simp add: grows_def)
  from g cb obtain xs where "formatChanges hd = formatChanges ha @ (0, len t, formats h st) # xs"
    by (auto simp: grows_def)
  with r s have general: "terminalState (highlightBlock fuel env t h) = Some (H1 + int k - 1)
    \<and> (\<exists>as bs. annotations (highlightBlock fuel env t h)
          = Some (as @ (0, len t, formats h (H1 + int k - 1)) # bs))"
    by (auto simp: terminalState_def annotations_def currentBlockState_def st_def)
  have exact: "annotations (highlightBlock fuel env t h) = Some (formatChanges h @ [(0, 13, formats h H1)])"
    if one: "t = ''# Heading one''" and pre: "highlightingRulesPre h = initHighlightingRulesPre fq"
  proof -
    have k1: "k = 1"
    proof -
      from k(1) obtain j where j: "k = Suc j" by (cases k) auto
      from one t have "replicate k (CHR ''#'') @ CHR '' '' # rest = ''# Heading one''" by simp
      then have "j = 0" unfolding j by (cases j) simp_all
      with j show ?thesis by simp
    qed
    have "highlightingRulesPre h0 = initHighlightingRulesPre fq" using pre by (simp add: h0_def)
    then have a: "ha = h0"
      unfolding ha_def one using heading_one_skips_rulesPre [of fq]
      by (simp add: highlightAdditionalRules_skipped)
    have c: "hc = hb"
      unfolding hc_def one db(4) rules using heading_one_skips_rulesAfter
      by (simp add: highlightAdditionalRules_skipped)
    have d: "hd = hc"
      unfolding hd_def one using dc(2) p(1) by (simp add: heading_one_no_comment)
    have "formatChanges hd = formatChanges h @ [(0, 13, formats h H1)]"
      using cb by (simp add: d c a h0_def st_def k1 one len_def)
    with r show ?thesis by (simp add: annotations_def)
  qed
  from general exact show ?thesis by blast
qed

theorem atx_heading_witness:
  "validBlock (newHighlighter [block ''# Heading one'' NoState] False plainTheme)
   \<and> ''# Heading one'' = replicate 1 (CHR ''#'') @ CHR '' '' # ''Heading one''
   \<and> terminalState
       (highlightBlock 0 noMatches ''# Heading one''
          (newHighlighter [block ''# Heading one'' NoState] False plainTheme)) = Some H1
   \<and> annotations
       (highlightBlock 0 noMatches ''# Heading one''
          (newHighlighter [block ''# Heading one'' NoState] False plainTheme))
     = Some [(0, 13, plainTheme H1)]"
proof -
  let ?h = "newHighlighter [block ''# Heading one'' NoState] False plainTheme"
  have v: "validBlock ?h" by (simp add: validBlock_def newHighlighter_def)
  have r: "highlightingRulesAfter ?h = initHighlightingRulesAfter" by (simp add: newHighlighter_def)
  have t: "''# Heading one'' = replicate 1 (CHR ''#'') @ CHR '' '' # ''Heading one''" by simp
  have p: "previousBlockState ?h = NoState"
    by (simp add: previousBlockState_def newHighlighter_def stateOfBlock_def)
  have e: "annotations (highlightBlock 0 noMatches ''# Heading one'' ?h) = Some [(0, 13, plainTheme H1)]"
    by code_simp
  from atx_heading_line [OF v r t, of 0 noMatches] p
  have "terminalState (highlightBlock 0 noMatches ''# Heading one'' ?h) = Some H1"
    by (simp add: isCodeBlockState_def)
  with v e show ?thesis by simp
qed

text \<open>
  C6 as stated fails in two places. The line \<^verbatim>\<open># Heading one\<close> gets one annotation, the
  heading format over the whole line, and none in the masked-syntax style. And the line
  \<^verbatim>\<open># x\<close> after a line in state \<open>CodeBash\<close> ends in \<open>CodeBash\<close>, not in \<open>H1\<close>.
\<close>

theorem heading_hash_not_masked_and_hash_line_in_code_block:
  "map_option styled
     (annotations
        (reformatBlock 0 noMatches 0
           (newHighlighter [block ''# Heading one'' NoState] False plainTheme)))
   = Some [(0, 13, H1)]
   \<and> terminalState
     (reformatBlock 100 noMatches 1
        (newHighlighter
           [block ([CHR 0x60, CHR 0x60, CHR 0x60] @ ''sh'') CodeBash, block ''# x'' NoState]
           False plainTheme))
   = Some CodeBash"
  apply code_simp
  apply simp?
  done

section \<open>Trailing spaces\<close>

text \<open>
  Every function that \<^verbatim>\<open>highlightBlock\<close> calls keeps \<open>tsInv\<close>: each format it passes to
  \<^verbatim>\<open>setFormat\<close> is an entry of the theme other than the trailing-space one, with properties
  changed, or the default format.
\<close>

lemma tsInv_setFormat [simp]:
  "tsInv (setFormat a b f h) = (tsInv h \<and> style f \<noteq> TrailingSpace)"
  by (auto simp: tsInv_def)

lemma tsInv_setCurrentBlockState [simp]: "tsInv (setCurrentBlockState s h) = tsInv h"
  by (simp add: tsInv_def)

lemma tsInv_style [simp]: "tsInv h \<Longrightarrow> style (formats h s) = s"
  by (simp add: tsInv_def)

lemma tsInv_highlightNumericLiterals:
  "tsInv h \<Longrightarrow> tsInv (snd (highlightNumericLiterals t i h))"
  by (simp add: highlightNumericLiterals_def Let_def)

lemma escapeLength_cases: "escapeLength t i = Inr n \<Longrightarrow> n = 0 \<or> n = 2 \<or> n = 4"
  by (auto simp: escapeLength_def Let_def split: if_splits sum.splits)

lemma tsInv_highlightStringLiterals_loop:
  "tsInv h \<Longrightarrow> highlightStringLiterals_loop c t i h = Inr (j, h') \<Longrightarrow> tsInv h'"
proof (induction c t i h rule: highlightStringLiterals_loop.induct)
  case (1 c t i h)
  from "1.prems"(2) show ?case
    apply (subst (asm) highlightStringLiterals_loop.simps)
    using "1.prems"(1) "1.IH"
    apply (auto split: if_splits sum.splits)
    done
qed

lemma tsInv_highlightStringLiterals:
  "tsInv h \<Longrightarrow> highlightStringLiterals c t i h = Inr (j, h') \<Longrightarrow> tsInv h'"
  unfolding highlightStringLiterals_def
  using tsInv_highlightStringLiterals_loop [of "setFormat i 1 (formats h CodeString) h" c t "i + 1" j h']
  by simp


lemma tsInv_applyWord:
  "tsInv (snd p) \<Longrightarrow> style fmt \<noteq> TrailingSpace \<Longrightarrow> tsInv (snd (applyWord t fmt w p))"
  by (cases p) (simp add: applyWord_def)

lemma tsInv_fold_applyWord:
  "tsInv (snd p) \<Longrightarrow> style fmt \<noteq> TrailingSpace \<Longrightarrow> tsInv (snd (fold (applyWord t fmt) ws p))"
  by (induction ws arbitrary: p) (simp_all add: tsInv_applyWord)

lemma tsInv_applyCodeFormat:
  "tsInv h \<Longrightarrow> style fmt \<noteq> TrailingSpace \<Longrightarrow> tsInv (snd (applyCodeFormat i d t fmt h))"
  by (simp add: applyCodeFormat_def tsInv_fold_applyWord)

lemma tsInv_applyOther: "tsInv (snd p) \<Longrightarrow> tsInv (snd (applyOther t w p))"
  by (cases p) (simp add: applyOther_def)

lemma tsInv_fold_applyOther: "tsInv (snd p) \<Longrightarrow> tsInv (snd (fold (applyOther t) ws p))"
  by (induction ws arbitrary: p) (simp_all add: tsInv_applyOther)

lemma tsInv_matchWords: "tsInv h \<Longrightarrow> tsInv (snd (matchWords d t i h))"
proof -
  assume h: "tsInv h"
  obtain i1 h1 where a1: "applyCodeFormat i (data_types d) t (formats h CodeType) h = (i1, h1)"
    by (cases "applyCodeFormat i (data_types d) t (formats h CodeType) h") auto
  obtain i2 h2 where a2: "applyCodeFormat i1 (data_keywords d) t (formats h1 CodeKeyWord) h1 = (i2, h2)"
    by (cases "applyCodeFormat i1 (data_keywords d) t (formats h1 CodeKeyWord) h1") auto
  obtain i3 h3 where a3: "applyCodeFormat i2 (data_literals d) t (formats h2 CodeNumLiteral) h2 = (i3, h3)"
    by (cases "applyCodeFormat i2 (data_literals d) t (formats h2 CodeNumLiteral) h2") auto
  obtain i4 h4 where a4: "applyCodeFormat i3 (data_builtin d) t (formats h3 CodeBuiltIn) h3 = (i4, h4)"
    by (cases "applyCodeFormat i3 (data_builtin d) t (formats h3 CodeBuiltIn) h3") auto
  obtain i5 h5 where a5:
    "(if (i4 = 0 \<or> \<not> isLetter (charAt t (i4 - 1))) \<and> data_others d (charAt t i4) \<noteq> []
      then fold (applyOther t) (data_others d (charAt t i4)) (i4, h4) else (i4, h4)) = (i5, h5)"
    by (cases "(if (i4 = 0 \<or> \<not> isLetter (charAt t (i4 - 1))) \<and> data_others d (charAt t i4) \<noteq> []
      then fold (applyOther t) (data_others d (charAt t i4)) (i4, h4) else (i4, h4))") auto
  have t1: "tsInv h1" using tsInv_applyCodeFormat [of h "formats h CodeType" i "data_types d" t] h a1 by simp
  have t2: "tsInv h2"
    using tsInv_applyCodeFormat [of h1 "formats h1 CodeKeyWord" i1 "data_keywords d" t] t1 a2 by simp
  have t3: "tsInv h3"
    using tsInv_applyCodeFormat [of h2 "formats h2 CodeNumLiteral" i2 "data_literals d" t] t2 a3 by simp
  have t4: "tsInv h4"
    using tsInv_applyCodeFormat [of h3 "formats h3 CodeBuiltIn" i3 "data_builtin d" t] t3 a4 by simp
  have t5: "tsInv h5"
    using tsInv_fold_applyOther [of "(i4, h4)" t "data_others d (charAt t i4)"] t4 a5
    by (auto split: if_splits)
  show ?thesis
    using h t1 t2 t3 t4 t5 a1 a2 a3 a4 a5 by (simp add: matchWords_def)
qed



lemma tsInv_highlightNumericLiterals':
  "highlightNumericLiterals t i h = (j, h') \<Longrightarrow> tsInv h \<Longrightarrow> tsInv h'"
  using tsInv_highlightNumericLiterals [of h t i] by simp

lemma tsInv_matchWords': "matchWords d t i h = (j, h') \<Longrightarrow> tsInv h \<Longrightarrow> tsInv h'"
  using tsInv_matchWords [of h d t i] by simp

lemma tsInv_scan:
  "tsInv h \<Longrightarrow> scan n d c t pc i h = Some (Inr (b, h')) \<Longrightarrow> tsInv h'"
proof (induction n arbitrary: pc i h c)
  case 0
  then show ?case by simp
next
  case (Suc n)
  have ih: "\<And>pc i h c. scan n d c t pc i h = Some (Inr (b, h')) \<Longrightarrow> tsInv h \<Longrightarrow> tsInv h'"
    using Suc.IH by blast
  note h = Suc.prems(1)
  show ?case
  proof (cases pc)
    case ForCond
    with Suc.prems(2) h show ?thesis by (auto split: if_splits elim: ih)
  next
    case WhileCond
    with Suc.prems(2) h show ?thesis
      apply (simp split: if_splits prod.splits sum.splits)
      apply (auto elim!: ih dest: tsInv_highlightNumericLiterals' tsInv_highlightStringLiterals)
      done
  next
    case CommentLabel
    with Suc.prems(2) h show ?thesis by (auto simp: Let_def split: if_splits elim!: ih)
  next
    case WhileBodyEnd
    with Suc.prems(2) h show ?thesis by (auto split: if_splits elim: ih)
  next
    case AfterWhile
    with Suc.prems(2) h show ?thesis
      by (auto split: prod.splits elim!: ih dest: tsInv_matchWords')
  qed
qed


lemma tsInv_ymlHighlighter_body:
  "tsInv (snd s) \<Longrightarrow> ymlHighlighter_body t i s = Continue j s' \<or> ymlHighlighter_body t i s = Return s'
     \<Longrightarrow> tsInv (snd s')"
  by (cases s) (auto simp: ymlHighlighter_body_def Let_def linkFormat_def split: if_splits)

lemma tsInv_ymlHighlighter_loop: "tsInv (snd s) \<Longrightarrow> tsInv (snd (ymlHighlighter_loop t i s))"
proof (induction t i s rule: ymlHighlighter_loop.induct)
  case (1 t i s)
  show ?case
  proof (cases "0 \<le> i \<and> i < len t")
    case False
    then show ?thesis using "1.prems" by (subst ymlHighlighter_loop.simps) auto
  next
    case True
    show ?thesis
    proof (cases "ymlHighlighter_body t i s")
      case (Continue j s')
      then have "tsInv (snd s')" using tsInv_ymlHighlighter_body [of s t i j s'] "1.prems" by simp
      from "1.IH" [OF True Continue this] Continue True show ?thesis
        by (subst ymlHighlighter_loop.simps) simp
    next
      case (Return s')
      then have "tsInv (snd s')" using tsInv_ymlHighlighter_body [of s t i 0 s'] "1.prems" by simp
      with Return True show ?thesis by (subst ymlHighlighter_loop.simps) simp
    qed
  qed
qed

lemma tsInv_ymlHighlighter: "tsInv h \<Longrightarrow> ymlHighlighter t h = Inr h' \<Longrightarrow> tsInv h'"
  using tsInv_ymlHighlighter_loop [of "(False, h)" t 0]
  by (auto simp: ymlHighlighter_def split: if_splits sum.splits)

lemma tsInv_iniHighlighter_body:
  "tsInv h \<Longrightarrow> iniHighlighter_body t i h = Continue j h' \<or> iniHighlighter_body t i h = Return h'
     \<Longrightarrow> tsInv h'"
  by (auto simp: iniHighlighter_body_def Let_def redDotted_def split: if_splits)

lemma tsInv_iniHighlighter_loop: "tsInv h \<Longrightarrow> tsInv (iniHighlighter_loop t i h)"
proof (induction t i h rule: iniHighlighter_loop.induct)
  case (1 t i h)
  show ?case
  proof (cases "0 \<le> i \<and> i < len t")
    case False
    then show ?thesis using "1.prems" by (subst iniHighlighter_loop.simps) auto
  next
    case True
    show ?thesis
    proof (cases "iniHighlighter_body t i h")
      case (Continue j h')
      then have "tsInv h'" using tsInv_iniHighlighter_body [of h t i j h'] "1.prems" by simp
      from "1.IH" [OF True Continue this] Continue True show ?thesis
        by (subst iniHighlighter_loop.simps) simp
    next
      case (Return h')
      then have "tsInv h'" using tsInv_iniHighlighter_body [of h t i 0 h'] "1.prems" by simp
      with Return True show ?thesis by (subst iniHighlighter_loop.simps) simp
    qed
  qed
qed

lemma tsInv_iniHighlighter: "tsInv h \<Longrightarrow> tsInv (iniHighlighter t h)"
  by (simp add: iniHighlighter_def tsInv_iniHighlighter_loop)

lemma tsInv_xmlTag: "tsInv h \<Longrightarrow> tsInv (snd (xmlTag t i h))"
  by (simp add: xmlTag_def Let_def)

lemma tsInv_xmlAttribute: "tsInv h \<Longrightarrow> tsInv (xmlAttribute t i h)"
  by (simp add: xmlAttribute_def Let_def)

lemma tsInv_xmlString:
  "tsInv h \<Longrightarrow> xmlString t i h = Continue j h' \<or> xmlString t i h = Return h' \<Longrightarrow> tsInv h'"
  by (auto simp: xmlString_def split: if_splits prod.splits)

lemma tsInv_xmlHighlighter_body:
  assumes "tsInv h"
    and "xmlHighlighter_body t i h = Inr (Continue j h') \<or> xmlHighlighter_body t i h = Inr (Return h')"
  shows "tsInv h'"
proof (cases "charAt t i = CHR ''<''")
  case False
  with assms(2) have "xmlString t i (xmlAttribute t i h) = Continue j h'
      \<or> xmlString t i (xmlAttribute t i h) = Return h'"
    by (auto simp: xmlHighlighter_body_def)
  with tsInv_xmlAttribute [OF assms(1), of t i] show ?thesis by (rule tsInv_xmlString)
next
  case True
  with assms(2) obtain c where c: "at_checked t (i + 1) = Inr c"
    by (auto simp: xmlHighlighter_body_def split: sum.splits)
  obtain i1 h1 where p: "(if c \<noteq> CHR ''!'' then xmlTag t i h else (i, h)) = (i1, h1)"
    by (cases "(if c \<noteq> CHR ''!'' then xmlTag t i h else (i, h))") auto
  have t1: "tsInv h1" using p tsInv_xmlTag [OF assms(1), of t i] assms(1) by (auto split: if_splits)
  from True c p assms(2) have "xmlString t i1 (xmlAttribute t i1 h1) = Continue j h'
      \<or> xmlString t i1 (xmlAttribute t i1 h1) = Return h'"
    by (auto simp: xmlHighlighter_body_def)
  with tsInv_xmlAttribute [OF t1, of t i1] show ?thesis by (rule tsInv_xmlString)
qed

lemma tsInv_xmlHighlighter_loop:
  "tsInv h \<Longrightarrow> xmlHighlighter_loop t i h = Inr h' \<Longrightarrow> tsInv h'"
proof (induction t i h rule: xmlHighlighter_loop.induct)
  case (1 t i h)
  show ?case
  proof (cases "0 \<le> i \<and> i < len t")
    case False
    then show ?thesis using "1.prems" by (subst (asm) xmlHighlighter_loop.simps) auto
  next
    case True
    show ?thesis
    proof (cases "xmlHighlighter_body t i h")
      case (Inl e)
      with True "1.prems"(2) show ?thesis by (subst (asm) xmlHighlighter_loop.simps) simp
    next
      case (Inr r)
      show ?thesis
      proof (cases r)
        case (Continue j h1)
        have "tsInv h1" using tsInv_xmlHighlighter_body [of h t i j h1] "1.prems"(1) Inr Continue by simp
        moreover have "xmlHighlighter_loop t (j + 1) h1 = Inr h'"
          using "1.prems"(2) True Inr Continue by (subst (asm) xmlHighlighter_loop.simps) simp
        ultimately show ?thesis using "1.IH" [OF True Inr Continue] by simp
      next
        case (Return h1)
        have "tsInv h1" using tsInv_xmlHighlighter_body [of h t i 0 h1] "1.prems"(1) Inr Return by simp
        moreover have "h1 = h'"
          using "1.prems"(2) True Inr Return by (subst (asm) xmlHighlighter_loop.simps) simp
        ultimately show ?thesis by simp
      qed
    qed
  qed
qed

lemma tsInv_xmlHighlighter: "tsInv h \<Longrightarrow> xmlHighlighter t h = Inr h' \<Longrightarrow> tsInv h'"
  using tsInv_xmlHighlighter_loop [of "setFormat 0 (len t) (formats h CodeBlock) h" t 0 h']
  by (auto simp: xmlHighlighter_def split: if_splits)


lemma tsInv_taggerVariable: "tsInv h \<Longrightarrow> tsInv (snd (taggerVariable t i h))"
  by (simp add: taggerVariable_def Let_def wavyRed_def)

lemma tsInv_taggerEscape:
  "tsInv h \<Longrightarrow> taggerEscape t i h = Inr (Continue j h') \<or> taggerEscape t i h = Inr (Return h')
     \<Longrightarrow> tsInv h'"
  by (auto simp: taggerEscape_def split: sum.splits if_splits)

lemma tsInv_taggerComment:
  "tsInv h \<Longrightarrow> taggerComment t i h = Inr (Continue j h') \<or> taggerComment t i h = Inr (Return h')
     \<Longrightarrow> tsInv h'"
  by (auto simp: taggerComment_def Let_def split: if_splits dest!: tsInv_taggerEscape [rotated])

lemma tsInv_taggerScriptHighlighter_body:
  assumes "tsInv h"
    and "taggerScriptHighlighter_body t i h = Inr (Continue j h')
         \<or> taggerScriptHighlighter_body t i h = Inr (Return h')"
  shows "tsInv h'"
proof (cases "charAt t i = CHR ''$'' \<and> mid t i 5 \<noteq> ''$noop''")
  case True
  define n where "n = indexOfChar t (CHR ''('') i"
  show ?thesis
  proof (cases "n = -1")
    case True
    with \<open>charAt t i = CHR ''$'' \<and> mid t i 5 \<noteq> ''$noop''\<close> assms show ?thesis
      by (auto simp: taggerScriptHighlighter_body_def Let_def n_def)
  next
    case False
    define h0 where "h0 = setFormat i (n - i) (formats h CodeKeyWord) h"
    have t0: "tsInv h0" using assms(1) by (simp add: h0_def)
    obtain i1 h1 where v: "taggerVariable t n h0 = (i1, h1)" by (cases "taggerVariable t n h0") auto
    have t1: "tsInv h1" using tsInv_taggerVariable [OF t0, of t n] v by simp
    from True False assms(2) v have "taggerComment t i1 h1 = Inr (Continue j h')
        \<or> taggerComment t i1 h1 = Inr (Return h')"
      by (simp add: taggerScriptHighlighter_body_def Let_def n_def h0_def)
    with t1 show ?thesis by (rule tsInv_taggerComment)
  qed
next
  case False
  obtain i1 h1 where v: "taggerVariable t i h = (i1, h1)" by (cases "taggerVariable t i h") auto
  have t1: "tsInv h1" using tsInv_taggerVariable [OF assms(1), of t i] v by simp
  from False assms(2) v have "taggerComment t i1 h1 = Inr (Continue j h')
      \<or> taggerComment t i1 h1 = Inr (Return h')"
    by (auto simp: taggerScriptHighlighter_body_def)
  with t1 show ?thesis by (rule tsInv_taggerComment)
qed

lemma tsInv_taggerScriptHighlighter_loop:
  "tsInv h \<Longrightarrow> taggerScriptHighlighter_loop t i h = Inr h' \<Longrightarrow> tsInv h'"
proof (induction t i h rule: taggerScriptHighlighter_loop.induct)
  case (1 t i h)
  show ?case
  proof (cases "0 \<le> i \<and> i < len t")
    case False
    then show ?thesis using "1.prems" by (subst (asm) taggerScriptHighlighter_loop.simps) auto
  next
    case True
    show ?thesis
    proof (cases "taggerScriptHighlighter_body t i h")
      case (Inl e)
      with True "1.prems"(2) show ?thesis by (subst (asm) taggerScriptHighlighter_loop.simps) simp
    next
      case (Inr r)
      show ?thesis
      proof (cases r)
        case (Continue j h1)
        have "tsInv h1"
          using tsInv_taggerScriptHighlighter_body [of h t i j h1] "1.prems"(1) Inr Continue by simp
        moreover have "taggerScriptHighlighter_loop t (j + 1) h1 = Inr h'"
          using "1.prems"(2) True Inr Continue by (subst (asm) taggerScriptHighlighter_loop.simps) simp
        ultimately show ?thesis using "1.IH" [OF True Inr Continue] by simp
      next
        case (Return h1)
        have "tsInv h1"
          using tsInv_taggerScriptHighlighter_body [of h t i 0 h1] "1.prems"(1) Inr Return by simp
        moreover have "h1 = h'"
          using "1.prems"(2) True Inr Return by (subst (asm) taggerScriptHighlighter_loop.simps) simp
        ultimately show ?thesis by simp
      qed
    qed
  qed
qed

lemma tsInv_taggerScriptHighlighter:
  "tsInv h \<Longrightarrow> taggerScriptHighlighter t h = Inr h' \<Longrightarrow> tsInv h'"
  using tsInv_taggerScriptHighlighter_loop [of h t 0 h']
  by (auto simp: taggerScriptHighlighter_def split: if_splits)

lemma tsInv_cssHighlighter_body:
  "tsInv h \<Longrightarrow> cssHighlighter_body env t i h = Continue j h' \<or> cssHighlighter_body env t i h = Return h'
     \<Longrightarrow> tsInv h'"
  by (auto simp: cssHighlighter_body_def Let_def defaultFormat_def split: if_splits)

lemma tsInv_cssHighlighter_loop:
  "tsInv h \<Longrightarrow> cssHighlighter_loop n env t i h = Some h' \<Longrightarrow> tsInv h'"
proof (induction n arbitrary: i h)
  case 0
  then show ?case by simp
next
  case (Suc n)
  show ?case
  proof (cases "i < len t")
    case False
    with Suc.prems show ?thesis by simp
  next
    case True
    show ?thesis
    proof (cases "cssHighlighter_body env t i h")
      case (Continue j h1)
      have "tsInv h1" using tsInv_cssHighlighter_body [of h env t i j h1] Suc.prems(1) Continue by simp
      moreover have "cssHighlighter_loop n env t (j + 1) h1 = Some h'"
        using Suc.prems(2) True Continue by simp
      ultimately show ?thesis by (rule Suc.IH)
    next
      case (Return h1)
      have "tsInv h1" using tsInv_cssHighlighter_body [of h env t i 0 h1] Suc.prems(1) Return by simp
      moreover have "h1 = h'" using Suc.prems(2) True Return by simp
      ultimately show ?thesis by simp
    qed
  qed
qed

lemma tsInv_cssHighlighter: "tsInv h \<Longrightarrow> cssHighlighter n env t h = Some h' \<Longrightarrow> tsInv h'"
  using tsInv_cssHighlighter_loop [of h n env t 0 h']
  by (auto simp: cssHighlighter_def split: if_splits)

lemma tsInv_postProcess:
  "tsInv h \<Longrightarrow> postProcess n env isCSS isYAML t h = Some (Inr h') \<Longrightarrow> tsInv h'"
  by (auto simp: postProcess_def split: if_splits option.splits
      dest: tsInv_cssHighlighter tsInv_ymlHighlighter)

lemma tsInv_highlightSyntax:
  assumes "tsInv h" and "highlightSyntax n env t h = Some (Inr h')"
  shows "tsInv h'"
proof (cases "t = []")
  case True
  with assms show ?thesis by (simp add: highlightSyntax_def)
next
  case False
  show ?thesis
  proof (cases "syntaxKind env (currentBlockState h)")
    case XmlSyntax
    with False assms show ?thesis by (auto simp: highlightSyntax_def dest: tsInv_xmlHighlighter)
  next
    case IniSyntax
    with False assms show ?thesis by (auto simp: highlightSyntax_def tsInv_iniHighlighter)
  next
    case TaggerSyntax
    with False assms show ?thesis by (auto simp: highlightSyntax_def dest: tsInv_taggerScriptHighlighter)
  next
    case (GenericSyntax d c isCSS isYAML)
    define h0 where "h0 = setFormat 0 (len t) (formats h CodeBlock) h"
    have t0: "tsInv h0" using assms(1) by (simp add: h0_def)
    from False GenericSyntax assms(2) obtain b h1 where
      s: "scan n d c t ForCond 0 h0 = Some (Inr (b, h1))"
      and r: "(if b then Some (Inr h1) else postProcess n env isCSS isYAML t h1) = Some (Inr h')"
      by (auto simp: highlightSyntax_def h0_def split: option.splits sum.splits prod.splits)
    have t1: "tsInv h1" using tsInv_scan [OF t0 s] .
    from r t1 show ?thesis by (auto split: if_splits dest: tsInv_postProcess)
  qed
qed

lemma indexOf_from_set:
  "indexOf_from needle s k \<noteq> -1 \<Longrightarrow> set needle \<subseteq> set s"
proof (induction s arbitrary: k)
  case Nil
  then show ?case by (simp split: if_splits)
next
  case (Cons c cs)
  show ?case
  proof (cases "take (length needle) (c # cs) = needle")
    case True
    then have "set needle = set (take (length needle) (c # cs))" by simp
    also have "\<dots> \<subseteq> set (c # cs)" by (rule set_take_subset)
    finally show ?thesis .
  next
    case False
    with Cons.prems have "indexOf_from needle cs (Suc k) \<noteq> -1" by simp
    from Cons.IH [OF this] show ?thesis by auto
  qed
qed

lemma contains_set: "contains t s \<Longrightarrow> set s \<subseteq> set t"
proof -
  assume "contains t s"
  then have "indexOf_from s (drop 0 t) 0 \<noteq> -1"
    by (auto simp: contains_def indexOf_def Let_def len_def split: if_splits)
  from indexOf_from_set [OF this] show ?thesis by simp
qed

lemma skips_rulesAfter:
  "CHR 0x0A \<notin> set t \<Longrightarrow> list_all (skipsTrailingSpace t) initHighlightingRulesAfter"
  by (auto simp: initHighlightingRulesAfter_def mkRule_def skipsTrailingSpace_def
      passesShouldContain_def dest!: contains_set)

lemma skips_rulesPre: "list_all (skipsTrailingSpace t) (initHighlightingRulesPre fq)"
  by (simp add: initHighlightingRulesPre_def mkRule_def skipsTrailingSpace_def)

lemma tsInv_setHeadingStyles:
  "tsInv h \<Longrightarrow> inHeading h \<Longrightarrow> tsInv (setHeadingStyles r m g h)"
  by (auto simp: setHeadingStyles_def Let_def inHeading_def)

lemma inHeading_setFormat [simp]: "inHeading (setFormat a b f h) = inHeading h"
  by (simp add: inHeading_def currentBlockState_def)

lemma tsInv_applyMatch:
  assumes "tsInv h" and "state rule \<noteq> TrailingSpace"
  shows "tsInv (applyMatch rule m h)"
proof -
  define fmt where "fmt = formats h (state rule)"
  define cm where "cm = (if fontPointSize fmt > 0
             then (formats h MaskedSyntax)\<lparr>fontPointSize := fontPointSize fmt\<rparr>
             else formats h MaskedSyntax)"
  define h1 where "h1 = (if capturingGroup rule > 0 \<and> \<not> (inHeading h \<and> state rule \<noteq> InlineCodeBlock)
                then setFormat (capturedStart m (maskedGroup rule))
                       (capturedLength m (maskedGroup rule)) cm h
                else h)"
  have c: "style cm \<noteq> TrailingSpace" using assms(1) by (simp add: cm_def)
  have t1: "tsInv h1" using assms(1) c by (simp add: h1_def)
  have f: "style fmt \<noteq> TrailingSpace" using assms by (simp add: fmt_def)
  have e: "applyMatch rule m h =
      (if inHeading h1 \<and> state rule \<noteq> InlineCodeBlock
         then setHeadingStyles (state rule) m (capturingGroup rule) h1
         else setFormat (capturedStart m (capturingGroup rule))
                (capturedLength m (capturingGroup rule)) fmt h1)"
    unfolding applyMatch_def Let_def h1_def cm_def fmt_def ..
  show ?thesis unfolding e using t1 f by (simp add: tsInv_setHeadingStyles)
qed

lemma tsInv_fold_applyMatch:
  "tsInv h \<Longrightarrow> state rule \<noteq> TrailingSpace \<Longrightarrow> tsInv (fold (applyMatch rule) ms h)"
  by (induction ms arbitrary: h) (simp_all add: tsInv_applyMatch)

lemma tsInv_applyRule:
  "tsInv h \<Longrightarrow> skipsTrailingSpace t rule \<Longrightarrow> tsInv (applyRule env t rule h)"
  by (auto simp: applyRule_def Let_def skipsTrailingSpace_def intro!: tsInv_fold_applyMatch)

lemma tsInv_highlightAdditionalRules:
  "tsInv h \<Longrightarrow> list_all (skipsTrailingSpace t) rules \<Longrightarrow> tsInv (highlightAdditionalRules env rules t h)"
  unfolding highlightAdditionalRules_def
  by (induction rules arbitrary: h) (simp_all add: tsInv_applyRule)


lemma hashRun_le: "hashRun s i \<le> max i 6"
proof (induction s i rule: hashRun.induct)
  case (1 s i)
  show ?case
  proof (cases "0 \<le> i \<and> i < len s \<and> charAt s i = CHR ''#'' \<and> i < 6")
    case True
    with "1.IH" show ?thesis by (subst hashRun.simps) auto
  next
    case False
    then show ?thesis by (subst hashRun.simps) auto
  qed
qed

lemma headingLevel_le: "headingLevel t \<le> 6"
  using hashRun_le [of t 1] by (simp add: headingLevel_def Let_def)

lemma tsInv_addDirtyBlock [simp]: "tsInv (addDirtyBlock n h) = tsInv h"
  by (simp add: addDirtyBlock_def tsInv_def)

lemma tsInv_document_update [simp]: "tsInv (h\<lparr>document := d\<rparr>) = tsInv h"
  by (simp add: tsInv_def)

lemma tsInv_highlightSubHeadline:
  "tsInv h \<Longrightarrow> st \<noteq> TrailingSpace \<Longrightarrow> tsInv (highlightSubHeadline t st h)"
  by (simp add: highlightSubHeadline_def Let_def)

lemma tsInv_highlightHeadline: "tsInv h \<Longrightarrow> tsInv (highlightHeadline t h)"
  using headingLevel_le [of t]
  by (simp add: highlightHeadline_def Let_def tsInv_highlightSubHeadline)

lemma rulesAfter_addDirtyBlock [simp]:
  "highlightingRulesAfter (addDirtyBlock n h) = highlightingRulesAfter h"
  by (simp add: addDirtyBlock_def)

lemma rulesAfter_highlightSubHeadline [simp]:
  "highlightingRulesAfter (highlightSubHeadline t st h) = highlightingRulesAfter h"
  by (simp add: highlightSubHeadline_def Let_def)

lemma rulesAfter_highlightHeadline [simp]:
  "highlightingRulesAfter (highlightHeadline t h) = highlightingRulesAfter h"
  by (simp add: highlightHeadline_def Let_def)

lemma tsInv_highlightCommentBlock: "tsInv h \<Longrightarrow> tsInv (highlightCommentBlock t h)"
  by (simp add: highlightCommentBlock_def Let_def)

lemma tsInv_highlightFrontmatterBlock: "tsInv h \<Longrightarrow> tsInv (highlightFrontmatterBlock t h)"
  by (simp add: highlightFrontmatterBlock_def Let_def)

lemma tsInv_formats_update:
  "tsInv h \<Longrightarrow> style f = s \<Longrightarrow> tsInv (h\<lparr>formats := (formats h)(s := f)\<rparr>)"
  by (simp add: tsInv_def)

lemma tsInv_highlightCodeBlock:
  assumes "tsInv h" and "highlightCodeBlock n env t h = Some (Inr h')"
  shows "tsInv h'"
proof (cases "startsWith t [CHR 0x60, CHR 0x60, CHR 0x60]")
  case True
  define h1 where "h1 = (if previousBlockState h \<noteq> CodeBlock \<and> previousBlockState h \<noteq> CodeBlockComment
                   \<and> previousBlockState h < CodeCpp then
                  (let lang = toLower (mid t 3 (len t));
                       progLang = langValue lang
                   in if progLang \<ge> CodeCpp then setCurrentBlockState progLang h
                      else setCurrentBlockState CodeBlock h)
                else if previousBlockState h = CodeBlock \<or> previousBlockState h = CodeBlockComment
                        \<or> previousBlockState h \<ge> CodeCpp
                then setCurrentBlockState CodeBlockEnd h
                else h)"
  define h2 where "h2 = h1\<lparr>formats := (formats h1)
                    (MaskedSyntax := (formats h1 MaskedSyntax)
                       \<lparr>fontPointSize := fontPointSize (formats h1 CodeBlock)\<rparr>)\<rparr>"
  have t1: "tsInv h1" using assms(1) by (simp add: h1_def Let_def)
  have t2: "tsInv h2" unfolding h2_def using t1 by (intro tsInv_formats_update) simp_all
  have "h' = setFormat 0 (len t) (formats h2 MaskedSyntax) h2"
    using assms(2) True unfolding highlightCodeBlock_def Let_def h2_def h1_def by simp
  with t2 show ?thesis by simp
next
  case False
  with assms show ?thesis
    by (auto simp: highlightCodeBlock_def split: if_splits dest!: tsInv_highlightSyntax [rotated])
qed

lemma tsInv_highlightMarkdown:
  assumes "tsInv h" and "CHR 0x0A \<notin> set t"
    and "highlightingRulesPre h = initHighlightingRulesPre fq"
    and "highlightingRulesAfter h = initHighlightingRulesAfter"
    and "highlightMarkdown n env t h = Some (Inr h')"
  shows "tsInv h'"
proof -
  define ha where "ha = highlightAdditionalRules env (highlightingRulesPre h) t h"
  define hb where "hb = highlightHeadline t ha"
  define hc where "hc = highlightAdditionalRules env (highlightingRulesAfter hb) t hb"
  define h1 where "h1 = (if t \<noteq> [] then hc else h)"
  define h2 where "h2 = highlightCommentBlock t h1"
  have ta: "tsInv ha" unfolding ha_def assms(3)
    using assms(1) skips_rulesPre by (rule tsInv_highlightAdditionalRules)
  have tb: "tsInv hb" unfolding hb_def using ta by (rule tsInv_highlightHeadline)
  have "highlightingRulesAfter hb = highlightingRulesAfter h"
    using frameD(4) [OF frame_highlightAdditionalRules, of env "highlightingRulesPre h" t h]
    by (simp add: hb_def ha_def)
  then have rb: "highlightingRulesAfter hb = initHighlightingRulesAfter" using assms(4) by simp
  have tc: "tsInv hc" unfolding hc_def rb
    using tb skips_rulesAfter [OF assms(2)] by (rule tsInv_highlightAdditionalRules)
  have t1: "tsInv h1" using tc assms(1) by (simp add: h1_def)
  have t2: "tsInv h2" unfolding h2_def using t1 by (rule tsInv_highlightCommentBlock)
  have e: "highlightMarkdown n env t h =
     (case highlightCodeBlock n env t h2 of
           None \<Rightarrow> None
         | Some (Inl e) \<Rightarrow> Some (Inl e)
         | Some (Inr h3) \<Rightarrow> Some (Inr (highlightFrontmatterBlock t h3)))"
    unfolding highlightMarkdown_def Let_def h2_def h1_def hc_def hb_def ha_def ..
  from assms(5) obtain h3 where c: "highlightCodeBlock n env t h2 = Some (Inr h3)"
    and r: "h' = highlightFrontmatterBlock t h3"
    unfolding e by (auto split: option.splits sum.splits)
  have "tsInv h3" using t2 c by (rule tsInv_highlightCodeBlock)
  then show ?thesis unfolding r by (rule tsInv_highlightFrontmatterBlock)
qed

lemma tsInv_highlightBlock:
  assumes "tsInv h" and "CHR 0x0A \<notin> set t"
    and "highlightingRulesPre h = initHighlightingRulesPre fq"
    and "highlightingRulesAfter h = initHighlightingRulesAfter"
    and "highlightBlock n env t h = Some (Inr h')"
  shows "tsInv h'"
proof -
  define h0 where "h0 = setCurrentBlockState NoState (setCurrentBlockState NoState h)"
  have t0: "tsInv h0" using assms(1) by (simp add: h0_def)
  have r: "highlightingRulesPre h0 = initHighlightingRulesPre fq"
    "highlightingRulesAfter h0 = initHighlightingRulesAfter"
    using assms(3,4) by (simp_all add: h0_def)
  from assms(5) obtain h1 where m: "highlightMarkdown n env t h0 = Some (Inr h1)"
    and e: "h' = h1\<lparr>highlightingFinished := True\<rparr>"
    by (auto simp: highlightBlock_def h0_def split: option.splits sum.splits)
  have "tsInv h1" using t0 assms(2) r m by (rule tsInv_highlightMarkdown)
  then show ?thesis by (simp add: e tsInv_def)
qed

text \<open>
  C10. On a line that holds no newline character, in a highlighter with the rules of
  \<^verbatim>\<open>initHighlightingRules\<close> and a theme that gives every entry its own style: every rule
  with the state \<open>TrailingSpace\<close> has the space followed by a newline as its only
  \<^verbatim>\<open>shouldContain\<close> string and does not pass the fast reject, and when \<^verbatim>\<open>highlightBlock\<close>
  returns, no annotation of the line has the style \<open>TrailingSpace\<close>.
\<close>

theorem trailing_space_never_highlighted:
  assumes "CHR 0x0A \<notin> set t"
    and "highlightingRulesPre h = initHighlightingRulesPre fq"
    and "highlightingRulesAfter h = initHighlightingRulesAfter"
    and "\<forall>s. style (formats h s) = s"
    and "formatChanges h = []"
  shows "(\<forall>r \<in> set (highlightingRulesPre h @ highlightingRulesAfter h).
            state r = TrailingSpace \<longrightarrow>
              shouldContain0 r = [CHR '' '', CHR 0x0A] \<and> shouldContain1 r = []
              \<and> shouldContain2 r = [] \<and> \<not> passesShouldContain r t)
    \<and> (\<forall>as. annotations (highlightBlock fuel env t h) = Some as
            \<longrightarrow> TrailingSpace \<notin> set (map (\<lambda>a. snd (snd a)) (styled as)))"
proof (intro conjI allI impI)
  have "list_all (skipsTrailingSpace t) (highlightingRulesPre h @ highlightingRulesAfter h)"
    using skips_rulesPre [of t fq] skips_rulesAfter [OF assms(1)] assms(2,3) by simp
  moreover have "list_all (\<lambda>r. state r = TrailingSpace \<longrightarrow>
        shouldContain0 r = [CHR '' '', CHR 0x0A] \<and> shouldContain1 r = [] \<and> shouldContain2 r = [])
      (highlightingRulesPre h @ highlightingRulesAfter h)"
    unfolding assms(2,3)
    by (simp add: initHighlightingRulesPre_def initHighlightingRulesAfter_def mkRule_def)
  ultimately show "\<forall>r \<in> set (highlightingRulesPre h @ highlightingRulesAfter h).
            state r = TrailingSpace \<longrightarrow>
              shouldContain0 r = [CHR '' '', CHR 0x0A] \<and> shouldContain1 r = []
              \<and> shouldContain2 r = [] \<and> \<not> passesShouldContain r t"
    unfolding list_all_iff skipsTrailingSpace_def by blast
next
  fix as
  assume a: "annotations (highlightBlock fuel env t h) = Some as"
  then obtain h' where r: "highlightBlock fuel env t h = Some (Inr h')" and e: "as = formatChanges h'"
    by (auto simp: annotations_def split: option.splits sum.splits)
  have "tsInv h" using assms(4,5) by (simp add: tsInv_def)
  from tsInv_highlightBlock [OF this assms(1,2,3) r]
  have "list_all (\<lambda>a. style (snd (snd a)) \<noteq> TrailingSpace) as" by (simp add: tsInv_def e)
  then show "TrailingSpace \<notin> set (map (\<lambda>a. snd (snd a)) (styled as))"
    by (auto simp: styled_def list_all_iff)
qed

theorem trailing_space_witness:
  "CHR 0x0A \<notin> set ''# abc  ''
   \<and> (\<forall>s. style (formats (newHighlighter [block ''# abc  '' NoState] False plainTheme) s) = s)
   \<and> map_option styled
       (annotations
          (highlightBlock 0
             (noMatches\<lparr>globalMatch := (\<lambda>p t. if p = TrailingSpacesRx then [[(5, 2), (5, 2)]] else [])\<rparr>)
             ''# abc  '' (newHighlighter [block ''# abc  '' NoState] False plainTheme)))
     = Some [(0, 7, H1)]
   \<and> \<not> passesShouldContain
         (mkRule TrailingSpace TrailingSpacesRx [CHR '' '', CHR 0x0A] [] [] 1 False False) ''# abc  ''"
proof -
  let ?h = "newHighlighter [block ''# abc  '' NoState] False plainTheme"
  let ?env = "noMatches\<lparr>globalMatch := (\<lambda>p t. if p = TrailingSpacesRx then [[(5, 2), (5, 2)]] else [])\<rparr>"
  let ?r = "mkRule TrailingSpace TrailingSpacesRx [CHR '' '', CHR 0x0A] [] [] 1 False False"
  have a: "CHR 0x0A \<notin> set ''# abc  ''" by simp
  have b: "highlightingRulesPre ?h = initHighlightingRulesPre False"
    and c: "highlightingRulesAfter ?h = initHighlightingRulesAfter"
    and d: "\<forall>s. style (formats ?h s) = s" and e: "formatChanges ?h = []"
    by (simp_all add: newHighlighter_def plainTheme_def)
  have m: "?r \<in> set (highlightingRulesPre ?h @ highlightingRulesAfter ?h)"
    unfolding c by (simp add: initHighlightingRulesAfter_def)
  have s: "state ?r = TrailingSpace" by (simp add: mkRule_def)
  have f: "map_option styled (annotations (highlightBlock 0 ?env ''# abc  '' ?h)) = Some [(0, 7, H1)]"
    apply code_simp
    apply simp?
    done
  from trailing_space_never_highlighted [OF a b c d e, of 0 ?env] m s
  have "\<not> passesShouldContain ?r ''# abc  ''" by blast
  with a d f show ?thesis by simp
qed

section \<open>The code scanners and the rest of the highlighter\<close>

text \<open>
  \<^verbatim>\<open>highlightSyntax\<close> and the scanners it calls use the highlighter through
  \<^verbatim>\<open>setFormat\<close>, \<^verbatim>\<open>setCurrentBlockState\<close>, \<^verbatim>\<open>currentBlockState\<close> and the theme only: they
  commute with every function that commutes with these. So they leave the document, the
  rule tables and the dirty queue as they are, and with them \<^verbatim>\<open>highlightBlock\<close> leaves the
  queue as it is.
\<close>

lemma commutesD:
  assumes "commutes g"
  shows "g (setFormat a b f x) = setFormat a b f (g x)"
    and "g (setCurrentBlockState s x) = setCurrentBlockState s (g x)"
    and "formats (g x) = formats x"
    and "currentBlockState (g x) = currentBlockState x"
  using assms by (simp_all add: commutes_def)

lemma commutes_highlightNumericLiterals:
  assumes g: "commutes g"
  shows "highlightNumericLiterals t i (g h) = apsnd g (highlightNumericLiterals t i h)"
  by (simp add: highlightNumericLiterals_def Let_def commutesD [OF g])

lemma commutes_highlightStringLiterals_loop:
  assumes g: "commutes g"
  shows "highlightStringLiterals_loop c t i (g h)
    = map_sum id (apsnd g) (highlightStringLiterals_loop c t i h)"
proof (induction c t i h rule: highlightStringLiterals_loop.induct)
  case (1 c t i h)
  note [simp] = commutesD [OF g]
  have L: "highlightStringLiterals_loop c t i (g h) =
     (if 0 < i \<and> i < len t then
        (if charAt t i = c \<and> charAt t (i - 1) \<noteq> CHR 0x5C
         then Inr (i + 1, setFormat i 1 (formats (g h) CodeString) (g h))
         else if charAt t i = CHR 0x5C \<and> i + 1 < len t then
           (case escapeLength t i of
              Inl e \<Rightarrow> Inl e
            | Inr n \<Rightarrow>
                if n = 0
                then highlightStringLiterals_loop c t (i + 1)
                       (setFormat i 1 (formats (g h) CodeString) (g h))
                else if n = 2
                then highlightStringLiterals_loop c t (i + 2)
                       (setFormat i 2 (formats (g h) CodeNumLiteral) (g h))
                else highlightStringLiterals_loop c t (i + 4)
                       (setFormat i 4 (formats (g h) CodeNumLiteral) (g h)))
         else highlightStringLiterals_loop c t (i + 1)
                (setFormat i 1 (formats (g h) CodeString) (g h)))
      else Inr (i, g h))"
    by (rule highlightStringLiterals_loop.simps)
  have R: "highlightStringLiterals_loop c t i h =
     (if 0 < i \<and> i < len t then
        (if charAt t i = c \<and> charAt t (i - 1) \<noteq> CHR 0x5C
         then Inr (i + 1, setFormat i 1 (formats h CodeString) h)
         else if charAt t i = CHR 0x5C \<and> i + 1 < len t then
           (case escapeLength t i of
              Inl e \<Rightarrow> Inl e
            | Inr n \<Rightarrow>
                if n = 0
                then highlightStringLiterals_loop c t (i + 1)
                       (setFormat i 1 (formats h CodeString) h)
                else if n = 2
                then highlightStringLiterals_loop c t (i + 2)
                       (setFormat i 2 (formats h CodeNumLiteral) h)
                else highlightStringLiterals_loop c t (i + 4)
                       (setFormat i 4 (formats h CodeNumLiteral) h))
         else highlightStringLiterals_loop c t (i + 1)
                (setFormat i 1 (formats h CodeString) h))
      else Inr (i, h))"
    by (rule highlightStringLiterals_loop.simps)
  show ?case
    unfolding L R using "1.IH"
    by (auto split: sum.splits)
qed

lemma commutes_highlightStringLiterals:
  assumes g: "commutes g"
  shows "highlightStringLiterals c t i (g h) = map_sum id (apsnd g) (highlightStringLiterals c t i h)"
  unfolding highlightStringLiterals_def
  using commutes_highlightStringLiterals_loop [OF g, of c t "i + 1" "setFormat i 1 (formats h CodeString) h"]
  by (simp add: commutesD [OF g])

lemma commutes_applyWord:
  assumes g: "commutes g"
  shows "applyWord t fmt w (apsnd g p) = apsnd g (applyWord t fmt w p)"
  by (cases p) (simp add: applyWord_def commutesD [OF g])

lemma commutes_fold_applyWord:
  assumes g: "commutes g"
  shows "fold (applyWord t fmt) ws (apsnd g p) = apsnd g (fold (applyWord t fmt) ws p)"
  by (induction ws arbitrary: p) (simp_all add: commutes_applyWord [OF g])

lemma commutes_applyCodeFormat:
  assumes g: "commutes g"
  shows "applyCodeFormat i data t fmt (g h) = apsnd g (applyCodeFormat i data t fmt h)"
  using commutes_fold_applyWord [OF g, of t fmt "data (charAt t i)" "(i, h)"]
  by (simp add: applyCodeFormat_def)

lemma commutes_applyOther:
  assumes g: "commutes g"
  shows "applyOther t w (apsnd g p) = apsnd g (applyOther t w p)"
  by (cases p) (simp add: applyOther_def commutesD [OF g])

lemma commutes_fold_applyOther:
  assumes g: "commutes g"
  shows "fold (applyOther t) ws (apsnd g p) = apsnd g (fold (applyOther t) ws p)"
  by (induction ws arbitrary: p) (simp_all add: commutes_applyOther [OF g])


lemma commutes_fold_applyOther_pair:
  assumes g: "commutes g"
  shows "fold (applyOther t) ws (i, g h) = apsnd g (fold (applyOther t) ws (i, h))"
  using commutes_fold_applyOther [OF g, of t ws "(i, h)"] by simp

lemma commutes_matchWords:
  assumes g: "commutes g"
  shows "matchWords d t i (g h) = apsnd g (matchWords d t i h)"
proof -
  note c = commutesD [OF g]
  obtain i1 h1 where a1: "applyCodeFormat i (data_types d) t (formats h CodeType) h = (i1, h1)"
    by (cases "applyCodeFormat i (data_types d) t (formats h CodeType) h") auto
  obtain i2 h2 where a2: "applyCodeFormat i1 (data_keywords d) t (formats h1 CodeKeyWord) h1 = (i2, h2)"
    by (cases "applyCodeFormat i1 (data_keywords d) t (formats h1 CodeKeyWord) h1") auto
  obtain i3 h3 where a3: "applyCodeFormat i2 (data_literals d) t (formats h2 CodeNumLiteral) h2 = (i3, h3)"
    by (cases "applyCodeFormat i2 (data_literals d) t (formats h2 CodeNumLiteral) h2") auto
  obtain i4 h4 where a4: "applyCodeFormat i3 (data_builtin d) t (formats h3 CodeBuiltIn) h3 = (i4, h4)"
    by (cases "applyCodeFormat i3 (data_builtin d) t (formats h3 CodeBuiltIn) h3") auto
  obtain i5 h5 where a5:
    "(if (i4 = 0 \<or> \<not> isLetter (charAt t (i4 - 1))) \<and> data_others d (charAt t i4) \<noteq> []
      then fold (applyOther t) (data_others d (charAt t i4)) (i4, h4) else (i4, h4)) = (i5, h5)"
    by (cases "(if (i4 = 0 \<or> \<not> isLetter (charAt t (i4 - 1))) \<and> data_others d (charAt t i4) \<noteq> []
      then fold (applyOther t) (data_others d (charAt t i4)) (i4, h4) else (i4, h4))") auto
  have b1: "applyCodeFormat i (data_types d) t (formats (g h) CodeType) (g h) = (i1, g h1)"
    using commutes_applyCodeFormat [OF g, of i "data_types d" t "formats h CodeType" h] a1
    by (simp add: c)
  have b2: "applyCodeFormat i1 (data_keywords d) t (formats (g h1) CodeKeyWord) (g h1) = (i2, g h2)"
    using commutes_applyCodeFormat [OF g, of i1 "data_keywords d" t "formats h1 CodeKeyWord" h1] a2
    by (simp add: c)
  have b3: "applyCodeFormat i2 (data_literals d) t (formats (g h2) CodeNumLiteral) (g h2) = (i3, g h3)"
    using commutes_applyCodeFormat [OF g, of i2 "data_literals d" t "formats h2 CodeNumLiteral" h2] a3
    by (simp add: c)
  have b4: "applyCodeFormat i3 (data_builtin d) t (formats (g h3) CodeBuiltIn) (g h3) = (i4, g h4)"
    using commutes_applyCodeFormat [OF g, of i3 "data_builtin d" t "formats h3 CodeBuiltIn" h3] a4
    by (simp add: c)
  have b5: "(if (i4 = 0 \<or> \<not> isLetter (charAt t (i4 - 1))) \<and> data_others d (charAt t i4) \<noteq> []
      then fold (applyOther t) (data_others d (charAt t i4)) (i4, g h4) else (i4, g h4)) = (i5, g h5)"
    using commutes_fold_applyOther_pair [OF g, of t "data_others d (charAt t i4)" i4 h4] a5
    by (auto split: if_splits)
  have L: "matchWords d t i (g h) =
     (if i = len t \<or> \<not> isLetter (charAt t i) then (i, g h)
      else if i1 = len t \<or> \<not> isLetter (charAt t i1) then (i1, g h1)
      else if i2 = len t \<or> \<not> isLetter (charAt t i2) then (i2, g h2)
      else if i3 = len t \<or> \<not> isLetter (charAt t i3) then (i3, g h3)
      else if i4 = len t \<or> \<not> isLetter (charAt t i4) then (i4, g h4)
      else if i = i5 then (skipWhile isLetter t i5, g h5) else (i5, g h5))"
    unfolding matchWords_def Let_def b1 b2 b3 b4 b5 prod.case ..
  have R: "matchWords d t i h =
     (if i = len t \<or> \<not> isLetter (charAt t i) then (i, h)
      else if i1 = len t \<or> \<not> isLetter (charAt t i1) then (i1, h1)
      else if i2 = len t \<or> \<not> isLetter (charAt t i2) then (i2, h2)
      else if i3 = len t \<or> \<not> isLetter (charAt t i3) then (i3, h3)
      else if i4 = len t \<or> \<not> isLetter (charAt t i4) then (i4, h4)
      else if i = i5 then (skipWhile isLetter t i5, h5) else (i5, h5))"
    unfolding matchWords_def Let_def a1 a2 a3 a4 a5 prod.case ..
  show ?thesis unfolding L R by simp
qed

lemma liftScan_simps [simp]:
  "liftScan g None = None"
  "liftScan g (Some (Inl e)) = Some (Inl e)"
  "liftScan g (Some (Inr (b, h))) = Some (Inr (b, g h))"
  by (simp_all add: liftScan_def)

lemma commutes_scan:
  assumes g: "commutes g"
  shows "scan n d c t pc i (g h) = liftScan g (scan n d c t pc i h)"
proof (induction n arbitrary: pc i h c)
  case 0
  show ?case by simp
next
  case (Suc n)
  note [simp] = commutesD(1,2) [OF g, symmetric] commutesD(3,4) [OF g] Suc.IH
    commutes_highlightNumericLiterals [OF g]
    commutes_highlightStringLiterals [OF g] commutes_matchWords [OF g]
    if_distrib [where f = "liftScan g"]
  show ?case
  proof (cases pc)
    case ForCond
    then show ?thesis by (simp split del: if_split cong: if_cong)
  next
    case WhileCond
    then show ?thesis
      by (cases "highlightStringLiterals (CHR 0x22) t i h";
          cases "highlightStringLiterals (CHR 0x27) t i h")
        (simp_all add: split_beta split del: if_split cong: if_cong)
  next
    case CommentLabel
    then show ?thesis by (simp add: Let_def)
  next
    case WhileBodyEnd
    then show ?thesis by (simp split del: if_split cong: if_cong)
  next
    case AfterWhile
    then show ?thesis by (simp add: split_beta split del: if_split cong: if_cong)
  qed
qed


lemma commutes_ymlHighlighter_body:
  assumes g: "commutes g"
  shows "ymlHighlighter_body t i (apsnd g s) = map_LoopStep (apsnd g) (ymlHighlighter_body t i s)"
  by (cases s)
    (simp add: ymlHighlighter_body_def Let_def linkFormat_def commutesD [OF g]
      if_distrib [where f = "map_LoopStep (apsnd g)"] if_distrib [where f = g]
      if_distrib [where f = formats]
      split del: if_split cong: if_cong)

lemma commutes_ymlHighlighter_loop:
  assumes g: "commutes g"
  shows "ymlHighlighter_loop t i (apsnd g s) = apsnd g (ymlHighlighter_loop t i s)"
proof (induction t i s rule: ymlHighlighter_loop.induct)
  case (1 t i s)
  note B = commutes_ymlHighlighter_body [OF g, of t i s]
  have L: "ymlHighlighter_loop t i (apsnd g s) =
     (if 0 \<le> i \<and> i < len t then
        (case ymlHighlighter_body t i (apsnd g s) of
           Continue j s' \<Rightarrow> ymlHighlighter_loop t (j + 1) s'
         | Return s' \<Rightarrow> s')
      else apsnd g s)"
    by (rule ymlHighlighter_loop.simps)
  have R: "ymlHighlighter_loop t i s =
     (if 0 \<le> i \<and> i < len t then
        (case ymlHighlighter_body t i s of
           Continue j s' \<Rightarrow> ymlHighlighter_loop t (j + 1) s'
         | Return s' \<Rightarrow> s')
      else s)"
    by (rule ymlHighlighter_loop.simps)
  show ?case
  proof (cases "0 \<le> i \<and> i < len t")
    case False
    then show ?thesis unfolding L R by auto
  next
    case True
    show ?thesis
    proof (cases "ymlHighlighter_body t i s")
      case (Continue j s')
      from "1.IH" [OF True Continue] True Continue show ?thesis unfolding L R B by simp
    next
      case (Return s')
      with True show ?thesis unfolding L R B by simp
    qed
  qed
qed

lemma commutes_ymlHighlighter:
  assumes g: "commutes g"
  shows "ymlHighlighter t (g h) = map_sum id g (ymlHighlighter t h)"
  using commutes_ymlHighlighter_loop [OF g, of t 0 "(False, h)"]
  by (simp add: ymlHighlighter_def split: sum.splits)

lemma commutes_iniHighlighter_body:
  assumes g: "commutes g"
  shows "iniHighlighter_body t i (g h) = map_LoopStep g (iniHighlighter_body t i h)"
  by (simp add: iniHighlighter_body_def Let_def commutesD [OF g]
      if_distrib [where f = "map_LoopStep g"] if_distrib [where f = g]
      if_distrib [where f = formats]
      split del: if_split cong: if_cong)

lemma commutes_iniHighlighter_loop:
  assumes g: "commutes g"
  shows "iniHighlighter_loop t i (g h) = g (iniHighlighter_loop t i h)"
proof (induction t i h rule: iniHighlighter_loop.induct)
  case (1 t i h)
  note B = commutes_iniHighlighter_body [OF g, of t i h]
  have L: "iniHighlighter_loop t i (g h) =
     (if 0 \<le> i \<and> i < len t then
        (case iniHighlighter_body t i (g h) of
           Continue j h' \<Rightarrow> iniHighlighter_loop t (j + 1) h'
         | Return h' \<Rightarrow> h')
      else g h)"
    by (rule iniHighlighter_loop.simps)
  have R: "iniHighlighter_loop t i h =
     (if 0 \<le> i \<and> i < len t then
        (case iniHighlighter_body t i h of
           Continue j h' \<Rightarrow> iniHighlighter_loop t (j + 1) h'
         | Return h' \<Rightarrow> h')
      else h)"
    by (rule iniHighlighter_loop.simps)
  show ?case
  proof (cases "0 \<le> i \<and> i < len t")
    case False
    then show ?thesis unfolding L R by auto
  next
    case True
    show ?thesis
    proof (cases "iniHighlighter_body t i h")
      case (Continue j h')
      from "1.IH" [OF True Continue] True Continue show ?thesis unfolding L R B by simp
    next
      case (Return h')
      with True show ?thesis unfolding L R B by simp
    qed
  qed
qed

lemma commutes_iniHighlighter:
  assumes g: "commutes g"
  shows "iniHighlighter t (g h) = g (iniHighlighter t h)"
  by (simp add: iniHighlighter_def commutes_iniHighlighter_loop [OF g])

lemma commutes_xmlTag:
  assumes g: "commutes g"
  shows "xmlTag t i (g h) = apsnd g (xmlTag t i h)"
  by (simp add: xmlTag_def Let_def commutesD [OF g])

lemma commutes_xmlAttribute:
  assumes g: "commutes g"
  shows "xmlAttribute t i (g h) = g (xmlAttribute t i h)"
  by (simp add: xmlAttribute_def Let_def commutesD [OF g])

lemma commutes_xmlString:
  assumes g: "commutes g"
  shows "xmlString t i (g h) = map_LoopStep g (xmlString t i h)"
  by (simp add: xmlString_def commutesD [OF g] split: prod.splits)

lemma commutes_xmlHighlighter_body:
  assumes g: "commutes g"
  shows "xmlHighlighter_body t i (g h) = map_sum id (map_LoopStep g) (xmlHighlighter_body t i h)"
  by (cases "xmlTag t i h")
    (simp add: xmlHighlighter_body_def commutes_xmlTag [OF g] commutes_xmlAttribute [OF g]
      commutes_xmlString [OF g] split: sum.splits)

lemma commutes_xmlHighlighter_loop:
  assumes g: "commutes g"
  shows "xmlHighlighter_loop t i (g h) = map_sum id g (xmlHighlighter_loop t i h)"
proof (induction t i h rule: xmlHighlighter_loop.induct)
  case (1 t i h)
  note B = commutes_xmlHighlighter_body [OF g, of t i h]
  have L: "xmlHighlighter_loop t i (g h) =
     (if 0 \<le> i \<and> i < len t then
        (case xmlHighlighter_body t i (g h) of
           Inl e \<Rightarrow> Inl e
         | Inr (Continue j h') \<Rightarrow> xmlHighlighter_loop t (j + 1) h'
         | Inr (Return h') \<Rightarrow> Inr h')
      else Inr (g h))"
    by (rule xmlHighlighter_loop.simps)
  have R: "xmlHighlighter_loop t i h =
     (if 0 \<le> i \<and> i < len t then
        (case xmlHighlighter_body t i h of
           Inl e \<Rightarrow> Inl e
         | Inr (Continue j h') \<Rightarrow> xmlHighlighter_loop t (j + 1) h'
         | Inr (Return h') \<Rightarrow> Inr h')
      else Inr h)"
    by (rule xmlHighlighter_loop.simps)
  show ?case
  proof (cases "0 \<le> i \<and> i < len t")
    case False
    then show ?thesis unfolding L R by auto
  next
    case True
    show ?thesis
    proof (cases "xmlHighlighter_body t i h")
      case (Inl e)
      with True show ?thesis unfolding L R B by simp
    next
      case (Inr r)
      show ?thesis
      proof (cases r)
        case (Continue j h')
        from "1.IH" [OF True Inr Continue] True Inr Continue show ?thesis unfolding L R B by simp
      next
        case (Return h')
        with True Inr show ?thesis unfolding L R B by simp
      qed
    qed
  qed
qed

lemma commutes_xmlHighlighter:
  assumes g: "commutes g"
  shows "xmlHighlighter t (g h) = map_sum id g (xmlHighlighter t h)"
  using commutes_xmlHighlighter_loop [OF g, of t 0 "setFormat 0 (len t) (formats h CodeBlock) h"]
  by (simp add: xmlHighlighter_def commutesD [OF g])


lemma commutes_taggerVariable:
  assumes g: "commutes g"
  shows "taggerVariable t i (g h) = apsnd g (taggerVariable t i h)"
  by (simp add: taggerVariable_def Let_def commutesD [OF g])

lemma commutes_taggerEscape:
  assumes g: "commutes g"
  shows "taggerEscape t i (g h) = map_sum id (map_LoopStep g) (taggerEscape t i h)"
  by (simp add: taggerEscape_def commutesD [OF g] split: sum.splits)

lemma commutes_taggerComment:
  assumes g: "commutes g"
  shows "taggerComment t i (g h) = map_sum id (map_LoopStep g) (taggerComment t i h)"
  using commutes_taggerEscape [OF g, of t "indexOfChar t (CHR '')'') i"
      "setFormat i (indexOfChar t (CHR '')'') i - i + 1) (formats h CodeComment) h"]
  by (simp add: taggerComment_def Let_def commutesD [OF g] commutes_taggerEscape [OF g])

lemma commutes_taggerScriptHighlighter_body:
  assumes g: "commutes g"
  shows "taggerScriptHighlighter_body t i (g h)
    = map_sum id (map_LoopStep g) (taggerScriptHighlighter_body t i h)"
proof -
  define n where "n = indexOfChar t (CHR ''('') i"
  define h0 where "h0 = setFormat i (n - i) (formats h CodeKeyWord) h"
  have e0: "setFormat i (n - i) (formats (g h) CodeKeyWord) (g h) = g h0"
    by (simp add: h0_def commutesD [OF g])
  obtain i1 h1 where v1: "taggerVariable t n h0 = (i1, h1)" by (cases "taggerVariable t n h0") auto
  obtain i2 h2 where v2: "taggerVariable t i h = (i2, h2)" by (cases "taggerVariable t i h") auto
  have w1: "taggerVariable t n (g h0) = (i1, g h1)"
    using commutes_taggerVariable [OF g, of t n h0] v1 by simp
  have w2: "taggerVariable t i (g h) = (i2, g h2)"
    using commutes_taggerVariable [OF g, of t i h] v2 by simp
  have L: "taggerScriptHighlighter_body t i (g h) =
     (if charAt t i = CHR ''$'' \<and> mid t i 5 \<noteq> ''$noop'' then
        (if n = -1 then Inr (Return (g h)) else taggerComment t i1 (g h1))
      else taggerComment t i2 (g h2))"
    unfolding taggerScriptHighlighter_body_def Let_def n_def [symmetric] e0 w1 w2 prod.case ..
  have R: "taggerScriptHighlighter_body t i h =
     (if charAt t i = CHR ''$'' \<and> mid t i 5 \<noteq> ''$noop'' then
        (if n = -1 then Inr (Return h) else taggerComment t i1 h1)
      else taggerComment t i2 h2)"
    unfolding taggerScriptHighlighter_body_def Let_def n_def [symmetric] h0_def [symmetric] v1 v2
      prod.case ..
  show ?thesis unfolding L R by (simp add: commutes_taggerComment [OF g])
qed

lemma commutes_taggerScriptHighlighter_loop:
  assumes g: "commutes g"
  shows "taggerScriptHighlighter_loop t i (g h) = map_sum id g (taggerScriptHighlighter_loop t i h)"
proof (induction t i h rule: taggerScriptHighlighter_loop.induct)
  case (1 t i h)
  note B = commutes_taggerScriptHighlighter_body [OF g, of t i h]
  have L: "taggerScriptHighlighter_loop t i (g h) =
     (if 0 \<le> i \<and> i < len t then
        (case taggerScriptHighlighter_body t i (g h) of
           Inl e \<Rightarrow> Inl e
         | Inr (Continue j h') \<Rightarrow> taggerScriptHighlighter_loop t (j + 1) h'
         | Inr (Return h') \<Rightarrow> Inr h')
      else Inr (g h))"
    by (rule taggerScriptHighlighter_loop.simps)
  have R: "taggerScriptHighlighter_loop t i h =
     (if 0 \<le> i \<and> i < len t then
        (case taggerScriptHighlighter_body t i h of
           Inl e \<Rightarrow> Inl e
         | Inr (Continue j h') \<Rightarrow> taggerScriptHighlighter_loop t (j + 1) h'
         | Inr (Return h') \<Rightarrow> Inr h')
      else Inr h)"
    by (rule taggerScriptHighlighter_loop.simps)
  show ?case
  proof (cases "0 \<le> i \<and> i < len t")
    case False
    then show ?thesis unfolding L R by auto
  next
    case True
    show ?thesis
    proof (cases "taggerScriptHighlighter_body t i h")
      case (Inl e)
      with True show ?thesis unfolding L R B by simp
    next
      case (Inr r)
      show ?thesis
      proof (cases r)
        case (Continue j h')
        from "1.IH" [OF True Inr Continue] True Inr Continue show ?thesis unfolding L R B by simp
      next
        case (Return h')
        with True Inr show ?thesis unfolding L R B by simp
      qed
    qed
  qed
qed

lemma commutes_taggerScriptHighlighter:
  assumes g: "commutes g"
  shows "taggerScriptHighlighter t (g h) = map_sum id g (taggerScriptHighlighter t h)"
  by (simp add: taggerScriptHighlighter_def commutes_taggerScriptHighlighter_loop [OF g])

lemma commutes_cssColor:
  assumes g: "commutes g"
  shows "cssColor env t i c (g h) = cssColor env t i c h"
  by (simp add: cssColor_def Let_def commutesD [OF g])

lemma commutes_cssHighlighter_body:
  assumes g: "commutes g"
  shows "cssHighlighter_body env t i (g h) = map_LoopStep g (cssHighlighter_body env t i h)"
  by (simp add: cssHighlighter_body_def Let_def commutesD [OF g] commutes_cssColor [OF g]
      if_distrib [where f = "map_LoopStep g"] if_distrib [where f = g]
      if_distrib [where f = formats]
      split del: if_split cong: if_cong)

lemma commutes_cssHighlighter_loop:
  assumes g: "commutes g"
  shows "cssHighlighter_loop n env t i (g h) = map_option g (cssHighlighter_loop n env t i h)"
proof (induction n arbitrary: i h)
  case 0
  show ?case by simp
next
  case (Suc n)
  show ?case
    by (cases "cssHighlighter_body env t i h")
      (simp_all add: commutes_cssHighlighter_body [OF g] Suc.IH)
qed

lemma commutes_cssHighlighter:
  assumes g: "commutes g"
  shows "cssHighlighter n env t (g h) = map_option g (cssHighlighter n env t h)"
  by (simp add: cssHighlighter_def commutes_cssHighlighter_loop [OF g])

lemma liftResult_simps [simp]:
  "liftResult g None = None"
  "liftResult g (Some (Inl e)) = Some (Inl e)"
  "liftResult g (Some (Inr h)) = Some (Inr (g h))"
  by (simp_all add: liftResult_def)

lemma commutes_postProcess:
  assumes g: "commutes g"
  shows "postProcess n env isCSS isYAML t (g h) = liftResult g (postProcess n env isCSS isYAML t h)"
  by (cases "cssHighlighter n env t h")
    (simp_all add: postProcess_def commutes_cssHighlighter [OF g] commutes_ymlHighlighter [OF g]
      liftResult_def)

lemma commutes_highlightSyntax:
  assumes g: "commutes g"
  shows "highlightSyntax n env t (g h) = liftResult g (highlightSyntax n env t h)"
proof (cases "t = []")
  case True
  then show ?thesis by (simp add: highlightSyntax_def)
next
  case False
  note c = commutesD [OF g]
  show ?thesis
  proof (cases "syntaxKind env (currentBlockState h)")
    case XmlSyntax
    with False show ?thesis
      by (cases "xmlHighlighter t h") (simp_all add: highlightSyntax_def c commutes_xmlHighlighter [OF g])
  next
    case IniSyntax
    with False show ?thesis by (simp add: highlightSyntax_def c commutes_iniHighlighter [OF g])
  next
    case TaggerSyntax
    with False show ?thesis
      by (cases "taggerScriptHighlighter t h")
        (simp_all add: highlightSyntax_def c commutes_taggerScriptHighlighter [OF g])
  next
    case (GenericSyntax d cm isCSS isYAML)
    define h0 where "h0 = setFormat 0 (len t) (formats h CodeBlock) h"
    have e0: "setFormat 0 (len t) (formats h CodeBlock) (g h) = g h0"
      by (simp add: h0_def c)
    have L: "highlightSyntax n env t (g h) =
       (case scan n d cm t ForCond 0 (g h0) of
                  None \<Rightarrow> None
                | Some (Inl e) \<Rightarrow> Some (Inl e)
                | Some (Inr (returned, h1)) \<Rightarrow>
                    if returned then Some (Inr h1) else postProcess n env isCSS isYAML t h1)"
      using False GenericSyntax by (simp add: highlightSyntax_def c e0)
    have R: "highlightSyntax n env t h =
       (case scan n d cm t ForCond 0 h0 of
                  None \<Rightarrow> None
                | Some (Inl e) \<Rightarrow> Some (Inl e)
                | Some (Inr (returned, h1)) \<Rightarrow>
                    if returned then Some (Inr h1) else postProcess n env isCSS isYAML t h1)"
      using False GenericSyntax by (simp add: highlightSyntax_def h0_def)
    show ?thesis
    proof (cases "scan n d cm t ForCond 0 h0")
      case None
      then show ?thesis unfolding L R commutes_scan [OF g] by simp
    next
      case (Some r)
      show ?thesis
      proof (cases r)
        case (Inl e)
        with Some show ?thesis unfolding L R commutes_scan [OF g] by simp
      next
        case (Inr p)
        obtain b h1 where p: "p = (b, h1)" by (cases p)
        with Some Inr show ?thesis unfolding L R commutes_scan [OF g]
          by (simp add: commutes_postProcess [OF g])
      qed
    qed
  qed
qed


lemma highlightSyntax_keeps:
  assumes a: "\<And>a b f x. \<phi> (setFormat a b f x) = \<phi> x"
    and b: "\<And>s x. \<phi> (setCurrentBlockState s x) = \<phi> x"
    and r: "highlightSyntax n env t h = Some (Inr h')"
  shows "\<phi> h' = \<phi> h"
proof -
  define g1 where "g1 = (\<lambda>x::MarkdownHighlighter. x\<lparr>highlightingFinished := True\<rparr>)"
  define gp where "gp = (\<lambda>x. x\<lparr>highlightingFinished := (\<phi> x = \<phi> h)\<rparr>)"
  have c1: "commutes g1"
    by (simp add: commutes_def g1_def setFormat_def setCurrentBlockState_def currentBlockState_def)
  have cp: "commutes gp"
    unfolding commutes_def gp_def
    apply (simp add: a b)
    apply (simp add: setFormat_def setCurrentBlockState_def currentBlockState_def)
    done
  have e: "gp h = g1 h" by (simp add: gp_def g1_def)
  from commutes_highlightSyntax [OF cp, of n env t h] commutes_highlightSyntax [OF c1, of n env t h] r e
  have "gp h' = g1 h'" by simp
  then have "highlightingFinished (gp h') = highlightingFinished (g1 h')" by simp
  then show ?thesis by (simp add: gp_def g1_def)
qed

lemma frame_highlightSyntax:
  "highlightSyntax n env t h = Some (Inr h') \<Longrightarrow> frame h' = frame h"
  by (rule highlightSyntax_keeps [where \<phi> = frame]) simp_all


lemma queue_highlightAdditionalRules [simp]:
  "dirtyTextBlocks (highlightAdditionalRules env rules t h) = dirtyTextBlocks h"
  by (rule frameD(6)) simp

lemma queue_highlightHeadline [simp]:
  "dirtyTextBlocks (highlightHeadline t h) = dirtyTextBlocks h"
  by (simp add: highlightHeadline_def Let_def highlightSubHeadline_keeps_queue)

lemma queue_highlightCommentBlock [simp]:
  "dirtyTextBlocks (highlightCommentBlock t h) = dirtyTextBlocks h"
  by (rule frameD(6)) simp

lemma queue_highlightFrontmatterBlock [simp]:
  "dirtyTextBlocks (highlightFrontmatterBlock t h) = dirtyTextBlocks h"
  by (simp add: highlightFrontmatterBlock_def Let_def)

lemma queue_highlightCodeBlock:
  assumes "highlightCodeBlock n env t h = Some (Inr h')"
  shows "dirtyTextBlocks h' = dirtyTextBlocks h"
proof (cases "startsWith t [CHR 0x60, CHR 0x60, CHR 0x60]")
  case True
  with assms show ?thesis by (auto simp: highlightCodeBlock_def Let_def split: if_splits)
next
  case False
  show ?thesis
  proof (cases "previousBlockState h = CodeBlock \<or> previousBlockState h = CodeBlockComment
              \<or> previousBlockState h \<ge> CodeCpp")
    case True
    with False assms
    have "highlightSyntax n env t (setCurrentBlockState (previousBlockState h) h) = Some (Inr h')"
      by (simp add: highlightCodeBlock_def)
    from frameD(6) [OF frame_highlightSyntax [OF this]] show ?thesis by simp
  next
    case c: False
    with False assms show ?thesis by (simp add: highlightCodeBlock_def)
  qed
qed

lemma highlightBlock_keeps_queue:
  assumes "highlightBlock n env t h = Some (Inr h')"
  shows "dirtyTextBlocks h' = dirtyTextBlocks h"
proof -
  define h0 where "h0 = setCurrentBlockState NoState (setCurrentBlockState NoState h)"
  define h2 where "h2 = beforeCodeBlock env t h0"
  have q2: "dirtyTextBlocks h2 = dirtyTextBlocks h"
    by (simp add: h2_def beforeCodeBlock_def Let_def h0_def)
  from assms obtain h3 where c: "highlightCodeBlock n env t h2 = Some (Inr h3)"
    and e: "h' = (highlightFrontmatterBlock t h3)\<lparr>highlightingFinished := True\<rparr>"
    by (auto simp: highlightBlock_def highlightMarkdown_beforeCodeBlock h0_def h2_def
        split: option.splits sum.splits)
  from queue_highlightCodeBlock [OF c] q2 show ?thesis by (simp add: e)
qed

lemma reformatBlock_keeps_queue:
  "reformatBlock n env b h = Some (Inr h') \<Longrightarrow> dirtyTextBlocks h' = dirtyTextBlocks h"
  unfolding reformatBlock_def by (drule highlightBlock_keeps_queue) simp

text \<open>Re-highlighting a block by \<open>reformatBlock\<close>, the highlighter kept as it is when the
  call does not return, changes the queue only by calls of \<^verbatim>\<open>addDirtyBlock\<close>: by none.\<close>

lemma reformatBlock_enqueuesOnly:
  "enqueuesOnly (\<lambda>b h. case reformatBlock fuel env b h of Some (Inr h') \<Rightarrow> h' | _ \<Rightarrow> h)"
  unfolding enqueuesOnly_def
proof (intro allI)
  fix b h
  have "dirtyTextBlocks (case reformatBlock fuel env b h of Some (Inr h') \<Rightarrow> h' | _ \<Rightarrow> h)
      = dirtyTextBlocks (fold addDirtyBlock [] h)"
    by (auto split: option.splits sum.splits dest: reformatBlock_keeps_queue)
  then show "\<exists>bs. dirtyTextBlocks (case reformatBlock fuel env b h of Some (Inr h') \<Rightarrow> h' | _ \<Rightarrow> h)
      = dirtyTextBlocks (fold addDirtyBlock bs h)" ..
qed

section \<open>What the result of highlightBlock depends on\<close>

text \<open>Every function that \<^verbatim>\<open>highlightBlock\<close> calls takes highlighters with the same view to
  highlighters with the same view.\<close>

lemma lineContext_frame: "frame h' = frame h \<Longrightarrow> lineContext h' = lineContext h"
  using frameD(1) [of h' h] frameD(7) [of h' h]
  by (simp add: lineContext_def nextBlock_def previousBlock_def)

lemma lineContext_simps [simp]:
  "lineContext (setFormat a b f h) = lineContext h"
  "lineContext (setCurrentBlockState s h) = lineContext h"
  by (rule lineContext_frame, simp)+

lemma sameViewD:
  assumes "sameView h h'"
  shows "validBlock h" and "validBlock h'"
    and "currentBlockState h = currentBlockState h'"
    and "previousBlockState h = previousBlockState h'"
    and "lineContext h = lineContext h'"
    and "formats h = formats h'"
    and "formatChanges h = formatChanges h'"
    and "highlightingRulesPre h = highlightingRulesPre h'"
    and "highlightingRulesAfter h = highlightingRulesAfter h'"
  using assms by (simp_all add: sameView_def)

lemma sameView_setFormat:
  "sameView h h' \<Longrightarrow> sameView (setFormat a b f h) (setFormat a b f h')"
  by (simp add: sameView_def)

lemma sameView_setCurrentBlockState:
  "sameView h h' \<Longrightarrow> sameView (setCurrentBlockState s h) (setCurrentBlockState s h')"
  by (simp add: sameView_def)

lemma sameView_inHeading: "sameView h h' \<Longrightarrow> inHeading h = inHeading h'"
  by (simp add: sameView_def inHeading_def)

lemma sameView_setHeadingStyles:
  assumes v: "sameView h h'"
  shows "sameView (setHeadingStyles r m g h) (setHeadingStyles r m g h')"
proof -
  note d = sameViewD [OF v]
  have R: "setHeadingStyles r m g h' =
     (let f = formats h (currentBlockState h) in
      if r = Italic then
        setFormat (capturedStart m g) (capturedLength m g) (f\<lparr>fontItalic := True\<rparr>) h'
      else if r = Bold then
        setFormat (capturedStart m g) (capturedLength m g) f h'
      else if r = Link then
        (if g = 1
         then setFormat (capturedStart m g) (capturedLength m g)
                ((formats h Link)\<lparr>fontPointSize := fontPointSize f\<rparr>) h'
         else h')
      else h')"
    unfolding setHeadingStyles_def d(3) d(6) ..
  show ?thesis unfolding R unfolding setHeadingStyles_def Let_def
    using v by (simp add: sameView_setFormat)
qed


lemma sameView_applyMatch:
  assumes v: "sameView h h'"
  shows "sameView (applyMatch rule m h) (applyMatch rule m h')"
proof -
  note d = sameViewD [OF v]
  define fmt where "fmt = formats h (state rule)"
  define cm where "cm = (if fontPointSize fmt > 0
             then (formats h MaskedSyntax)\<lparr>fontPointSize := fontPointSize fmt\<rparr>
             else formats h MaskedSyntax)"
  define c where "c = (capturingGroup rule > 0 \<and> \<not> (inHeading h \<and> state rule \<noteq> InlineCodeBlock))"
  define h1 where "h1 = (if c then setFormat (capturedStart m (maskedGroup rule))
                       (capturedLength m (maskedGroup rule)) cm h else h)"
  define h1' where "h1' = (if c then setFormat (capturedStart m (maskedGroup rule))
                       (capturedLength m (maskedGroup rule)) cm h' else h')"
  have v1: "sameView h1 h1'" unfolding h1_def h1'_def using v by (simp add: sameView_setFormat)
  have L: "applyMatch rule m h =
      (if inHeading h1 \<and> state rule \<noteq> InlineCodeBlock
         then setHeadingStyles (state rule) m (capturingGroup rule) h1
         else setFormat (capturedStart m (capturingGroup rule))
                (capturedLength m (capturingGroup rule)) fmt h1)"
    unfolding applyMatch_def Let_def h1_def c_def cm_def fmt_def ..
  have R: "applyMatch rule m h' =
      (if inHeading h1' \<and> state rule \<noteq> InlineCodeBlock
         then setHeadingStyles (state rule) m (capturingGroup rule) h1'
         else setFormat (capturedStart m (capturingGroup rule))
                (capturedLength m (capturingGroup rule)) fmt h1')"
    unfolding applyMatch_def Let_def h1'_def c_def cm_def fmt_def d(6)
      sameView_inHeading [OF v] ..
  show ?thesis unfolding L R sameView_inHeading [OF v1]
    using v1 by (simp add: sameView_setHeadingStyles sameView_setFormat)
qed

lemma sameView_fold_applyMatch:
  "sameView h h' \<Longrightarrow> sameView (fold (applyMatch rule) ms h) (fold (applyMatch rule) ms h')"
  by (induction ms arbitrary: h h') (simp_all add: sameView_applyMatch)

lemma sameView_applyRule:
  assumes v: "sameView h h'"
  shows "sameView (applyRule env t rule h) (applyRule env t rule h')"
  using sameViewD(3) [OF v] v
  by (simp add: applyRule_def Let_def sameView_fold_applyMatch sameView_setCurrentBlockState)

lemma sameView_highlightAdditionalRules:
  "sameView h h' \<Longrightarrow>
     sameView (highlightAdditionalRules env rules t h) (highlightAdditionalRules env rules t h')"
  unfolding highlightAdditionalRules_def
  by (induction rules arbitrary: h h') (simp_all add: sameView_applyRule)


lemma setPrevious_simps [simp]:
  "validBlock (h\<lparr>document := setUserState n s (document h)\<rparr>) = validBlock h"
  "currentBlockState (h\<lparr>document := setUserState (previousBlock h) s (document h)\<rparr>)
     = currentBlockState h"
  "lineContext (h\<lparr>document := setUserState n s (document h)\<rparr>) = lineContext h"
  by (simp_all add: validBlock_def currentBlockState_def stateOfBlock_setUserState previousBlock_def
      lineContext_def nextBlock_def textOfBlock_cong [OF map_blockText_setUserState])

lemma previousBlockState_setPrevious:
  "len (textOfBlock (document h) (previousBlock h)) > 0 \<Longrightarrow>
     previousBlockState (h\<lparr>document := setUserState (previousBlock h) s (document h)\<rparr>) = s"
  by (auto simp: previousBlockState_def previousBlock_def stateOfBlock_setUserState textOfBlock_def
      len_def split: if_splits)

lemma highlightSubHeadline_eq:
  "highlightSubHeadline t st h =
     (if (previousBlockState h = st \<or> previousBlockState h = NoState)
         \<and> len (textOfBlock (document h) (previousBlock h)) > 0
      then (setCurrentBlockState HeadlineEnd
              (setFormat 0 (len t)
                 ((formats h MaskedSyntax)\<lparr>fontPointSize := fontPointSize (formats h st)\<rparr>) h))
           \<lparr>document := setUserState (previousBlock h) st
               (document (setCurrentBlockState HeadlineEnd
              (setFormat 0 (len t)
                 ((formats h MaskedSyntax)\<lparr>fontPointSize := fontPointSize (formats h st)\<rparr>) h)))\<rparr>
      else h)"
proof -
  define h2 where "h2 = setCurrentBlockState HeadlineEnd
              (setFormat 0 (len t)
                 ((formats h MaskedSyntax)\<lparr>fontPointSize := fontPointSize (formats h st)\<rparr>) h)"
  have p: "previousBlock h2 = previousBlock h" by (simp add: h2_def previousBlock_def)
  have tx: "textOfBlock (document h2) (previousBlock h2) = textOfBlock (document h) (previousBlock h)"
    unfolding p by (rule frameD(7)) (simp add: h2_def)
  have "len (textOfBlock (document h) (previousBlock h)) > 0 \<Longrightarrow>
     previousBlockState (h2\<lparr>document := setUserState (previousBlock h2) st (document h2)\<rparr>) = st"
    using previousBlockState_setPrevious [of h2 st] tx by simp
  then show ?thesis
    unfolding highlightSubHeadline_def Let_def h2_def [symmetric] p by auto
qed

lemma sameView_setPrevious:
  assumes v: "sameView h h'" and l: "len (textOfBlock (document h) (previousBlock h)) > 0"
  shows "sameView (h\<lparr>document := setUserState (previousBlock h) st (document h)\<rparr>)
           (h'\<lparr>document := setUserState (previousBlock h') st (document h')\<rparr>)"
proof -
  note d = sameViewD [OF v]
  from d(5) l have l': "len (textOfBlock (document h') (previousBlock h')) > 0"
    by (simp add: lineContext_def)
  show ?thesis
    unfolding sameView_def
    using d previousBlockState_setPrevious [OF l, of st] previousBlockState_setPrevious [OF l', of st]
    by simp
qed

lemma sameView_prevLen:
  "sameView h h' \<Longrightarrow>
     (len (textOfBlock (document h) (previousBlock h)) > 0)
       = (len (textOfBlock (document h') (previousBlock h')) > 0)"
  by (simp add: sameView_def lineContext_def)

lemma sameView_highlightSubHeadline:
  assumes v: "sameView h h'"
  shows "sameView (highlightSubHeadline t st h) (highlightSubHeadline t st h')"
proof -
  note d = sameViewD [OF v]
  define cm where "cm = (formats h MaskedSyntax)\<lparr>fontPointSize := fontPointSize (formats h st)\<rparr>"
  define h2 where "h2 = setCurrentBlockState HeadlineEnd (setFormat 0 (len t) cm h)"
  define h2' where "h2' = setCurrentBlockState HeadlineEnd (setFormat 0 (len t) cm h')"
  have v2: "sameView h2 h2'" unfolding h2_def h2'_def
    by (intro sameView_setCurrentBlockState sameView_setFormat v)
  have p: "previousBlock h2 = previousBlock h" "previousBlock h2' = previousBlock h'"
    by (simp_all add: h2_def h2'_def previousBlock_def)
  have tx: "textOfBlock (document h2) (previousBlock h2) = textOfBlock (document h) (previousBlock h)"
    unfolding p by (rule frameD(7)) (simp add: h2_def)
  have L: "highlightSubHeadline t st h =
     (if (previousBlockState h = st \<or> previousBlockState h = NoState)
         \<and> len (textOfBlock (document h) (previousBlock h)) > 0
      then h2\<lparr>document := setUserState (previousBlock h2) st (document h2)\<rparr> else h)"
    by (simp add: highlightSubHeadline_eq h2_def cm_def previousBlock_def)
  have R: "highlightSubHeadline t st h' =
     (if (previousBlockState h = st \<or> previousBlockState h = NoState)
         \<and> len (textOfBlock (document h) (previousBlock h)) > 0
      then h2'\<lparr>document := setUserState (previousBlock h2') st (document h2')\<rparr> else h')"
    using d(4,6) sameView_prevLen [OF v]
    by (simp add: highlightSubHeadline_eq h2'_def cm_def previousBlock_def)
  show ?thesis
  proof (cases "(previousBlockState h = st \<or> previousBlockState h = NoState)
         \<and> len (textOfBlock (document h) (previousBlock h)) > 0")
    case True
    then have "len (textOfBlock (document h2) (previousBlock h2)) > 0" using tx by simp
    from sameView_setPrevious [OF v2 this, of st] True show ?thesis unfolding L R by simp
  next
    case False
    then show ?thesis unfolding L R using v by auto
  qed
qed

lemma sameView_next:
  assumes "sameView h h'"
  shows "hasOnlyHeadChars (textOfBlock (document h) (nextBlock h)) (CHR ''='')
       = hasOnlyHeadChars (textOfBlock (document h') (nextBlock h')) (CHR ''='')"
    and "hasOnlyHeadChars (textOfBlock (document h) (nextBlock h)) (CHR ''-'')
       = hasOnlyHeadChars (textOfBlock (document h') (nextBlock h')) (CHR ''-'')"
  using assms by (simp_all add: sameView_def lineContext_def)

lemma sameView_highlightHeadline:
  assumes v: "sameView h h'"
  shows "sameView (highlightHeadline t h) (highlightHeadline t h')"
proof -
  note d = sameViewD [OF v]
  define e where "e = hasOnlyHeadChars (textOfBlock (document h) (nextBlock h)) (CHR ''='')"
  define m where "m = hasOnlyHeadChars (textOfBlock (document h) (nextBlock h)) (CHR ''-'')"
  define h1 where "h1 = (if e then setCurrentBlockState H1
                          (setCurrentBlockState H1 (setFormat 0 (len t) (formats h H1) h)) else h)"
  define h1' where "h1' = (if e then setCurrentBlockState H1
                          (setCurrentBlockState H1 (setFormat 0 (len t) (formats h H1) h')) else h')"
  have v1: "sameView h1 h1'" unfolding h1_def h1'_def
    using v by (simp add: sameView_setCurrentBlockState sameView_setFormat)
  have f1: "formats h1 = formats h" "formats h1' = formats h" by (simp_all add: h1_def h1'_def d(6))
  have L: "highlightHeadline t h =
     (if charAt t 0 = CHR ''#'' \<and> 1 \<ge> len t then h
      else if headingLevel t > 0 then
        setCurrentBlockState (H1 + headingLevel t - 1)
          (setFormat 0 (len t) (formats h (H1 + headingLevel t - 1)) h)
      else if hasOnlyHeadChars t (CHR ''='') then highlightSubHeadline t H1 h
      else if hasOnlyHeadChars t (CHR ''-'') then highlightSubHeadline t H2 h
      else if m then setCurrentBlockState H2
                   (setCurrentBlockState H2 (setFormat 0 (len t) (formats h H2) h1))
            else h1)"
    by (simp add: highlightHeadline_def Let_def h1_def e_def m_def)
  have R: "highlightHeadline t h' =
     (if charAt t 0 = CHR ''#'' \<and> 1 \<ge> len t then h'
      else if headingLevel t > 0 then
        setCurrentBlockState (H1 + headingLevel t - 1)
          (setFormat 0 (len t) (formats h (H1 + headingLevel t - 1)) h')
      else if hasOnlyHeadChars t (CHR ''='') then highlightSubHeadline t H1 h'
      else if hasOnlyHeadChars t (CHR ''-'') then highlightSubHeadline t H2 h'
      else if m then setCurrentBlockState H2
                   (setCurrentBlockState H2 (setFormat 0 (len t) (formats h H2) h1'))
            else h1')"
    using d(6) sameView_next [OF v]
    by (simp add: highlightHeadline_def Let_def h1'_def e_def m_def)
  show ?thesis unfolding L R
    using v v1
    by (simp add: sameView_setCurrentBlockState sameView_setFormat sameView_highlightSubHeadline)
qed

lemma sameView_highlightCommentBlock:
  assumes v: "sameView h h'"
  shows "sameView (highlightCommentBlock t h) (highlightCommentBlock t h')"
  using sameViewD(4,6) [OF v] v
  by (simp add: highlightCommentBlock_def Let_def sameView_setCurrentBlockState sameView_setFormat)

lemma sameView_highlightFrontmatterBlock:
  assumes v: "sameView h h'"
  shows "sameView (highlightFrontmatterBlock t h) (highlightFrontmatterBlock t h')"
proof -
  note d = sameViewD [OF v]
  from d(5) have c: "(textOfBlock (document h) 0 = ''---'') = (textOfBlock (document h') 0 = ''---'')"
    "(currentBlock h = 0) = (currentBlock h' = 0)"
    by (simp_all add: lineContext_def)
  show ?thesis
    using c d(4,6) v
    by (simp add: highlightFrontmatterBlock_def Let_def sameView_setCurrentBlockState
        sameView_setFormat)
qed


lemma setUserState_twice [simp]: "setUserState n s (setUserState n s0 d) = setUserState n s d"
  by (auto simp: setUserState_def)

lemma setUserState_same:
  "setUserState n (stateOfBlock d n) d = d"
  by (simp add: setUserState_def stateOfBlock_def list_update_same_conv)

lemma setCurrentBlockState_invalid: "\<not> validBlock x \<Longrightarrow> setCurrentBlockState s x = x"
  by (simp add: setCurrentBlockState_def validBlock_def setUserState_def)

lemma commutes_rebase:
  assumes X: "validBlock X"
  shows "commutes (rebase X)"
  unfolding commutes_def
proof (intro conjI allI)
  fix a b f x
  show "rebase X (setFormat a b f x) = setFormat a b f (rebase X x)"
    by (simp add: rebase_def) (simp add: setFormat_def setCurrentBlockState_def currentBlockState_def)
next
  fix s x
  show "rebase X (setCurrentBlockState s x) = setCurrentBlockState s (rebase X x)"
  proof (cases "validBlock x")
    case True
    then show ?thesis by (simp add: rebase_def) (simp add: setCurrentBlockState_def)
  next
    case False
    then show ?thesis by (simp add: rebase_def setCurrentBlockState_invalid)
  qed
next
  fix x
  show "formats (rebase X x) = formats x" by (simp add: rebase_def)
next
  fix x :: MarkdownHighlighter
  have "validBlock (X\<lparr>formatChanges := formatChanges x, formats := formats x\<rparr>)"
    using X by (simp add: validBlock_def)
  then show "currentBlockState (rebase X x) = currentBlockState x" by (simp add: rebase_def)
qed

lemma rebase_sameView:
  assumes v: "sameView h h'"
  shows "rebase h' h = h'"
proof -
  note d = sameViewD [OF v]
  have "h'\<lparr>formatChanges := formatChanges h, formats := formats h\<rparr> = h'" by (simp add: d)
  then have "rebase h' h = setCurrentBlockState (currentBlockState h') h'"
    using d(1,3) by (simp add: rebase_def)
  also have "\<dots> = h'"
    by (simp add: setCurrentBlockState_def currentBlockState_def setUserState_same)
  finally show ?thesis .
qed

lemma sameView_rebase:
  assumes v: "sameView h h'" and f: "frame x = frame h"
  shows "sameView x (rebase h' x)"
proof -
  note d = sameViewD [OF v]
  note fd = frameD [OF f]
  have vx: "validBlock x" using fd(8) d(1) by simp
  define y where "y = h'\<lparr>formatChanges := formatChanges x, formats := formats x\<rparr>"
  have r: "rebase h' x = setCurrentBlockState (currentBlockState x) y"
    using vx by (simp add: rebase_def y_def)
  have vy: "validBlock y" using d(2) by (simp add: y_def validBlock_def)
  have py: "previousBlockState y = previousBlockState h'" by (simp add: y_def previousBlockState_def)
  have ly: "lineContext y = lineContext h'"
    by (simp add: y_def lineContext_def nextBlock_def previousBlock_def)
  have lx: "lineContext x = lineContext h" using f by (rule lineContext_frame)
  show ?thesis
    unfolding sameView_def r
    using vx vy py ly lx d fd by (simp add: y_def)
qed

lemma sameResult_simps [simp]:
  "sameResult None r' = (r' = None)"
  "sameResult (Some (Inl e)) r' = (r' = Some (Inl e))"
  "sameResult (Some (Inr h)) (Some (Inr h')) = sameView h h'"
  "sameResult (Some (Inr h)) None = False"
  "sameResult (Some (Inr h)) (Some (Inl e)) = False"
  by (simp_all add: sameResult_def)

lemma sameView_highlightSyntax:
  assumes v: "sameView h h'"
  shows "sameResult (highlightSyntax n env t h) (highlightSyntax n env t h')"
proof -
  have c: "commutes (rebase h')" using sameViewD(2) [OF v] by (rule commutes_rebase)
  have e: "highlightSyntax n env t h' = liftResult (rebase h') (highlightSyntax n env t h)"
    using commutes_highlightSyntax [OF c, of n env t h] rebase_sameView [OF v] by simp
  show ?thesis
  proof (cases "highlightSyntax n env t h")
    case None
    then show ?thesis by (simp add: e)
  next
    case (Some r)
    show ?thesis
    proof (cases r)
      case (Inl err)
      with Some show ?thesis by (simp add: e)
    next
      case (Inr x)
      from Some Inr have "frame x = frame h" by (intro frame_highlightSyntax) simp
      from sameView_rebase [OF v this] Some Inr show ?thesis by (simp add: e)
    qed
  qed
qed

lemma sameView_formats_update:
  assumes v: "sameView h h'"
  shows "sameView (h\<lparr>formats := F\<rparr>) (h'\<lparr>formats := F\<rparr>)"
  using sameViewD [OF v]
  by (simp add: sameView_def validBlock_def currentBlockState_def previousBlockState_def
      lineContext_def nextBlock_def previousBlock_def)

lemma sameView_highlightCodeBlock:
  assumes v: "sameView h h'"
  shows "sameResult (highlightCodeBlock n env t h) (highlightCodeBlock n env t h')"
proof -
  note d = sameViewD [OF v]
  show ?thesis
  proof (cases "startsWith t [CHR 0x60, CHR 0x60, CHR 0x60]")
    case True
    define h1 where "h1 = (if previousBlockState h \<noteq> CodeBlock \<and> previousBlockState h \<noteq> CodeBlockComment
                   \<and> previousBlockState h < CodeCpp then
                  (let lang = toLower (mid t 3 (len t));
                       progLang = langValue lang
                   in if progLang \<ge> CodeCpp then setCurrentBlockState progLang h
                      else setCurrentBlockState CodeBlock h)
                else if previousBlockState h = CodeBlock \<or> previousBlockState h = CodeBlockComment
                        \<or> previousBlockState h \<ge> CodeCpp
                then setCurrentBlockState CodeBlockEnd h
                else h)"
    define h1' where "h1' = (if previousBlockState h \<noteq> CodeBlock \<and> previousBlockState h \<noteq> CodeBlockComment
                   \<and> previousBlockState h < CodeCpp then
                  (let lang = toLower (mid t 3 (len t));
                       progLang = langValue lang
                   in if progLang \<ge> CodeCpp then setCurrentBlockState progLang h'
                      else setCurrentBlockState CodeBlock h')
                else if previousBlockState h = CodeBlock \<or> previousBlockState h = CodeBlockComment
                        \<or> previousBlockState h \<ge> CodeCpp
                then setCurrentBlockState CodeBlockEnd h'
                else h')"
    define F where "F = (formats h) (MaskedSyntax := (formats h MaskedSyntax)
                       \<lparr>fontPointSize := fontPointSize (formats h CodeBlock)\<rparr>)"
    have v1: "sameView h1 h1'" unfolding h1_def h1'_def
      using v by (simp add: Let_def sameView_setCurrentBlockState)
    have f1: "formats h1 = formats h" "formats h1' = formats h"
      by (simp_all add: h1_def h1'_def Let_def d(6))
    have L: "highlightCodeBlock n env t h
        = Some (Inr (setFormat 0 (len t) (F MaskedSyntax) (h1\<lparr>formats := F\<rparr>)))"
      using True by (simp add: highlightCodeBlock_def Let_def F_def h1_def)
    have R: "highlightCodeBlock n env t h'
        = Some (Inr (setFormat 0 (len t) (F MaskedSyntax) (h1'\<lparr>formats := F\<rparr>)))"
      using True d(4,6) by (simp add: highlightCodeBlock_def Let_def F_def h1'_def)
    show ?thesis unfolding L R
      by (simp add: sameView_setFormat sameView_formats_update v1)
  next
    case False
    show ?thesis
    proof (cases "previousBlockState h = CodeBlock \<or> previousBlockState h = CodeBlockComment
              \<or> previousBlockState h \<ge> CodeCpp")
      case True
      have "sameResult
          (highlightSyntax n env t (setCurrentBlockState (previousBlockState h) h))
          (highlightSyntax n env t (setCurrentBlockState (previousBlockState h) h'))"
        by (intro sameView_highlightSyntax sameView_setCurrentBlockState v)
      with False True d(4) show ?thesis by (simp add: highlightCodeBlock_def)
    next
      case c: False
      with False d(4) v show ?thesis by (simp add: highlightCodeBlock_def)
    qed
  qed
qed

lemma sameView_beforeCodeBlock:
  assumes v: "sameView h h'"
  shows "sameView (beforeCodeBlock env t h) (beforeCodeBlock env t h')"
proof -
  note d = sameViewD [OF v]
  define ha where "ha = highlightAdditionalRules env (highlightingRulesPre h) t h"
  define ha' where "ha' = highlightAdditionalRules env (highlightingRulesPre h) t h'"
  define hb where "hb = highlightHeadline t ha"
  define hb' where "hb' = highlightHeadline t ha'"
  have va: "sameView ha ha'" unfolding ha_def ha'_def by (rule sameView_highlightAdditionalRules [OF v])
  have vb: "sameView hb hb'" unfolding hb_def hb'_def by (rule sameView_highlightHeadline [OF va])
  have vc: "sameView (highlightAdditionalRules env (highlightingRulesAfter hb) t hb)
      (highlightAdditionalRules env (highlightingRulesAfter hb') t hb')"
    unfolding sameViewD(9) [OF vb, symmetric] by (rule sameView_highlightAdditionalRules [OF vb])
  have L: "beforeCodeBlock env t h = highlightCommentBlock t
       (if t \<noteq> [] then highlightAdditionalRules env (highlightingRulesAfter hb) t hb else h)"
    by (simp add: beforeCodeBlock_def Let_def hb_def ha_def)
  have R: "beforeCodeBlock env t h' = highlightCommentBlock t
       (if t \<noteq> [] then highlightAdditionalRules env (highlightingRulesAfter hb') t hb' else h')"
    by (simp add: beforeCodeBlock_def Let_def hb'_def ha'_def d(8))
  show ?thesis unfolding L R
    using v vc by (auto intro!: sameView_highlightCommentBlock)
qed

lemma sameView_highlightMarkdown:
  assumes v: "sameView h h'"
  shows "sameResult (highlightMarkdown n env t h) (highlightMarkdown n env t h')"
proof -
  from sameView_highlightCodeBlock [OF sameView_beforeCodeBlock [OF v], of n env t]
  have c: "sameResult (highlightCodeBlock n env t (beforeCodeBlock env t h))
             (highlightCodeBlock n env t (beforeCodeBlock env t h'))" .
  show ?thesis
  proof (cases "highlightCodeBlock n env t (beforeCodeBlock env t h)")
    case None
    with c show ?thesis by (simp add: highlightMarkdown_beforeCodeBlock)
  next
    case (Some r)
    show ?thesis
    proof (cases r)
      case (Inl err)
      with Some c show ?thesis by (simp add: highlightMarkdown_beforeCodeBlock)
    next
      case (Inr x)
      with Some c obtain x' where
        x': "highlightCodeBlock n env t (beforeCodeBlock env t h') = Some (Inr x')" "sameView x x'"
        by (cases "highlightCodeBlock n env t (beforeCodeBlock env t h')")
          (auto simp: sameResult_def split: sum.splits)
      with Some Inr show ?thesis
        by (simp add: highlightMarkdown_beforeCodeBlock sameView_highlightFrontmatterBlock)
    qed
  qed
qed

lemma sameView_finished:
  "sameView h h' \<Longrightarrow> sameView (h\<lparr>highlightingFinished := a\<rparr>) (h'\<lparr>highlightingFinished := a\<rparr>)"
  by (simp add: sameView_def validBlock_def currentBlockState_def previousBlockState_def
      lineContext_def nextBlock_def previousBlock_def)

lemma sameView_highlightBlock:
  assumes v: "sameView h h'"
  shows "sameResult (highlightBlock n env t h) (highlightBlock n env t h')"
proof -
  define h0 where "h0 = setCurrentBlockState NoState (setCurrentBlockState NoState h)"
  define h0' where "h0' = setCurrentBlockState NoState (setCurrentBlockState NoState h')"
  have v0: "sameView h0 h0'" unfolding h0_def h0'_def
    by (intro sameView_setCurrentBlockState v)
  note c = sameView_highlightMarkdown [OF v0, of n env t]
  show ?thesis
  proof (cases "highlightMarkdown n env t h0")
    case None
    with c show ?thesis by (simp add: highlightBlock_def h0_def h0'_def)
  next
    case (Some r)
    show ?thesis
    proof (cases r)
      case (Inl err)
      with Some c show ?thesis by (simp add: highlightBlock_def h0_def h0'_def)
    next
      case (Inr x)
      with Some c obtain x' where
        x': "highlightMarkdown n env t h0' = Some (Inr x')" "sameView x x'"
        by (cases "highlightMarkdown n env t h0'") (auto simp: sameResult_def split: sum.splits)
      with Some Inr show ?thesis
        by (simp add: highlightBlock_def h0_def [symmetric] h0'_def [symmetric] sameView_finished)
    qed
  qed
qed

lemma highlightBlock_reset:
  "highlightBlock n env t (setCurrentBlockState NoState h) = highlightBlock n env t h"
  by (simp add: highlightBlock_def) (simp add: setCurrentBlockState_def)

lemma sameResult_outputs:
  assumes "sameResult r r'"
  shows "terminalState r = terminalState r'" and "annotations r = annotations r'"
    and "failure r = failure r'"
proof -
  show "terminalState r = terminalState r'" "annotations r = annotations r'"
    "failure r = failure r'"
    using assms
    by (auto simp: sameResult_def terminalState_def annotations_def failure_def sameView_def
        split: option.splits sum.splits)
qed

text \<open>
  C4, as the code has it. Two calls of \<^verbatim>\<open>highlightBlock\<close> on the same text, with the same
  regular expressions and language tables, each on a block of its document, give the same
  terminal state, the same annotations and the same failure, or both no result, when the
  highlighters agree in the state of the previous line, in the line context (whether the
  next line consists of \<^verbatim>\<open>=\<close> only or of \<^verbatim>\<open>-\<close> only, whether the previous line is not empty,
  whether the first line of the document is \<^verbatim>\<open>---\<close>, whether the line is the first line),
  in the theme, in the rule tables and in the annotations made before the call.
\<close>

theorem highlightBlock_determined_by_line_context:
  assumes "validBlock h" and "validBlock h'"
    and "previousBlockState h = previousBlockState h'"
    and "lineContext h = lineContext h'"
    and "formats h = formats h'"
    and "highlightingRulesPre h = highlightingRulesPre h'"
    and "highlightingRulesAfter h = highlightingRulesAfter h'"
    and "formatChanges h = formatChanges h'"
  shows "terminalState (highlightBlock fuel env t h) = terminalState (highlightBlock fuel env t h')
    \<and> annotations (highlightBlock fuel env t h) = annotations (highlightBlock fuel env t h')
    \<and> failure (highlightBlock fuel env t h) = failure (highlightBlock fuel env t h')"
proof -
  have "sameView (setCurrentBlockState NoState h) (setCurrentBlockState NoState h')"
    using assms by (simp add: sameView_def)
  from sameView_highlightBlock [OF this, of fuel env t]
  have "sameResult (highlightBlock fuel env t h) (highlightBlock fuel env t h')"
    by (simp add: highlightBlock_reset)
  from sameResult_outputs [OF this] show ?thesis by simp
qed

theorem line_context_witness:
  "validBlock ((newHighlighter [block ''a'' NoState, block ''Title'' NoState, block ''====='' NoState,
                   block ''x'' H3] False plainTheme)\<lparr>currentBlock := 1\<rparr>)
   \<and> validBlock ((newHighlighter [block ''bcd'' NoState, block ''Title'' Bold, block ''=='' H1]
                   False plainTheme)\<lparr>currentBlock := 1, dirtyTextBlocks := [2]\<rparr>)
   \<and> lineContext ((newHighlighter [block ''a'' NoState, block ''Title'' NoState, block ''====='' NoState,
                   block ''x'' H3] False plainTheme)\<lparr>currentBlock := 1\<rparr>)
     = lineContext ((newHighlighter [block ''bcd'' NoState, block ''Title'' Bold, block ''=='' H1]
                   False plainTheme)\<lparr>currentBlock := 1, dirtyTextBlocks := [2]\<rparr>)
   \<and> terminalState (highlightBlock 0 noMatches ''Title''
         ((newHighlighter [block ''a'' NoState, block ''Title'' NoState, block ''====='' NoState,
                   block ''x'' H3] False plainTheme)\<lparr>currentBlock := 1\<rparr>)) = Some H1
   \<and> terminalState (highlightBlock 0 noMatches ''Title''
         ((newHighlighter [block ''bcd'' NoState, block ''Title'' Bold, block ''=='' H1]
                   False plainTheme)\<lparr>currentBlock := 1, dirtyTextBlocks := [2]\<rparr>)) = Some H1"
proof -
  let ?h = "(newHighlighter [block ''a'' NoState, block ''Title'' NoState, block ''====='' NoState,
                   block ''x'' H3] False plainTheme)\<lparr>currentBlock := 1\<rparr>"
  let ?h' = "(newHighlighter [block ''bcd'' NoState, block ''Title'' Bold, block ''=='' H1]
                   False plainTheme)\<lparr>currentBlock := 1, dirtyTextBlocks := [2]\<rparr>"
  have a: "validBlock ?h" "validBlock ?h'" by (simp_all add: validBlock_def newHighlighter_def)
  have b: "previousBlockState ?h = previousBlockState ?h'"
    by (simp add: previousBlockState_def stateOfBlock_def newHighlighter_def block_def)
  have c: "lineContext ?h = lineContext ?h'" by code_simp
  have d: "formats ?h = formats ?h'" "highlightingRulesPre ?h = highlightingRulesPre ?h'"
    "highlightingRulesAfter ?h = highlightingRulesAfter ?h'" "formatChanges ?h = formatChanges ?h'"
    by (simp_all add: newHighlighter_def)
  have e: "terminalState (highlightBlock 0 noMatches ''Title'' ?h) = Some H1"
    apply code_simp
    apply simp?
    done
  from highlightBlock_determined_by_line_context [OF a b c d, of 0 noMatches "''Title''"] e
  have "terminalState (highlightBlock 0 noMatches ''Title'' ?h') = Some H1" by simp
  with a c e show ?thesis by simp
qed

text \<open>
  C4 as stated fails: the line \<^verbatim>\<open>Title\<close>, first in its document and so with the previous
  state \<open>NoState\<close>, ends in \<open>H1\<close> with the whole line in the \<open>H1\<close> format when the next line
  is \<^verbatim>\<open>=====\<close>, and in \<open>NoState\<close> with no annotation when the next line is \<^verbatim>\<open>text\<close>.
\<close>

theorem next_line_changes_result:
  "previousBlockState (newHighlighter [block ''Title'' NoState, block ''====='' NoState] False plainTheme)
     = previousBlockState (newHighlighter [block ''Title'' NoState, block ''text'' NoState] False plainTheme)
   \<and> terminalState (highlightBlock 0 noMatches ''Title''
         (newHighlighter [block ''Title'' NoState, block ''====='' NoState] False plainTheme)) = Some H1
   \<and> terminalState (highlightBlock 0 noMatches ''Title''
         (newHighlighter [block ''Title'' NoState, block ''text'' NoState] False plainTheme)) = Some NoState
   \<and> map_option styled (annotations (highlightBlock 0 noMatches ''Title''
         (newHighlighter [block ''Title'' NoState, block ''====='' NoState] False plainTheme)))
       = Some [(0, 5, H1)]
   \<and> map_option styled (annotations (highlightBlock 0 noMatches ''Title''
         (newHighlighter [block ''Title'' NoState, block ''text'' NoState] False plainTheme)))
       = Some []"
  apply code_simp
  apply simp?
  done

end
